theory Spec2Isabelle
  imports Main "HOL-Library.Sublist" "HOL-Library.Char_ord" "HOL-Library.List_Lexorder"
    "HOL-Library.Product_Lexorder"
begin

section \<open>Strings\<close>

text \<open>
  Python strings are modelled by their UTF-8 bytes. The program only compares strings,
  concatenates them and tests them for emptiness, and UTF-8 encoding preserves all three.
  The accented letters of the source's literals are written as their two bytes.
\<close>

definition c_cedilha :: string where "c_cedilha = [CHR 0xC3, CHR 0xA7]"
definition a_til :: string where "a_til = [CHR 0xC3, CHR 0xA3]"
definition a_agudo :: string where "a_agudo = [CHR 0xC3, CHR 0xA1]"
definition e_agudo :: string where "e_agudo = [CHR 0xC3, CHR 0xA9]"
definition o_agudo :: string where "o_agudo = [CHR 0xC3, CHR 0xB3]"
definition o_circ :: string where "o_circ = [CHR 0xC3, CHR 0xB4]"

text \<open>
  The literals of the source that carry accents: the type of the first movement entry
  (lines 94, 159), the type of an entry made by an edit (184), the prefix of the
  status-change type (204), and the location, category, brand and responsible of the
  manual inserts and edits (150-153, 185).
\<close>

definition Aquisicao :: string where
  "Aquisicao = ''Aquisi'' @ c_cedilha @ a_til @ ''o''"
definition Movimentacao :: string where
  "Movimentacao = ''Movimenta'' @ c_cedilha @ a_til @ ''o''"
definition Atualizacao_de_Status :: string where
  "Atualizacao_de_Status = ''Atualiza'' @ c_cedilha @ a_til @ ''o de Status: ''"
definition Laboratorio_101 :: string where
  "Laboratorio_101 = ''Laborat'' @ o_agudo @ ''rio 101''"
definition Eletronico :: string where
  "Eletronico = ''Eletr'' @ o_circ @ ''nico''"
definition Generica :: string where
  "Generica = ''Gen'' @ e_agudo @ ''rica''"
definition Usuario_App :: string where
  "Usuario_App = ''Usu'' @ a_agudo @ ''rio App''"

text \<open>The decimal rendering of a non-negative integer inside an f-string.\<close>

definition digit :: "nat \<Rightarrow> char" where
  "digit d = ''0123456789'' ! d"

fun str_nat :: "nat \<Rightarrow> string" where
  "str_nat n = (if n < 10 then [digit n] else str_nat (n div 10) @ [digit (n mod 10)])"

declare str_nat.simps [simp del]

text \<open>Reading a decimal rendering back; used only to show that \<open>str_nat\<close> is injective.\<close>

definition digit_val :: "char \<Rightarrow> nat" where
  "digit_val c = of_char c - 48"

definition nat_of_str :: "string \<Rightarrow> nat" where
  "nat_of_str s = foldl (\<lambda>a c. 10 * a + digit_val c) 0 s"

section \<open>Documents\<close>

text \<open>
  A movement entry is the dict built at lines 92-98, 157-163 and 182-186. The entry that
  \<open>editar_documento\<close> starts from has no \<open>from_location\<close> and no \<open>to_location\<close> key,
  so these two fields are optional.
\<close>

record movement_entry =
  date :: string
  type :: string
  from_location :: "string option"
  to_location :: "string option"
  responsible :: string

text \<open>
  An asset document. The source reads \<open>location\<close> and \<open>status\<close> with
  \<^verbatim>\<open>.get(key, default)\<close>, so a stored document may lack them: \<open>None\<close> is the absent key.
\<close>

record asset =
  asset_id :: string
  asset_name :: string
  category :: string
  brand :: string
  description :: string
  location :: "string option"
  status :: "string option"
  acquisition_date :: string
  movement_history :: "movement_entry list"

text \<open>A document as the store holds it: with the \<^verbatim>\<open>_id\<close> the driver gave it on insertion.\<close>

record stored =
  oid :: nat
  doc :: asset

section \<open>Errors and printed lines\<close>

text \<open>
  The exceptions that can arise: a failure of a store call (\<^verbatim>\<open>pymongo.errors.PyMongoError\<close>),
  the \<^verbatim>\<open>TypeError\<close> that \<^verbatim>\<open>insert_many\<close> raises on an empty list, a failure of
  \<^verbatim>\<open>pd.read_csv\<close>, and the \<^verbatim>\<open>KeyError\<close> of subscripting a document by a key it lacks.
\<close>

datatype error = PyMongoError | TypeError | ReadCsvError | KeyError

text \<open>
  One constructor for each \<^verbatim>\<open>print\<close> of the modelled functions, carrying the values the
  f-string interpolates; the number after each is the source line. They are grouped by the
  function that prints them.
\<close>

datatype import_line =
    CsvNotFound string  \<comment> \<open>58\<close>
  | CsvLoaded string nat  \<comment> \<open>64\<close>
  | ProcessingFirst int  \<comment> \<open>70\<close>
  | ProcessingAll nat  \<comment> \<open>73\<close>
  | Imported nat  \<comment> \<open>107\<close>
  | NothingToImport  \<comment> \<open>109\<close>
  | ImportFailed error  \<comment> \<open>112\<close>

datatype insert_line =
    InsertedExtra nat  \<comment> \<open>169\<close>
  | InsertExtraFailed error  \<comment> \<open>172\<close>

datatype edit_line =
    UpdatingLocation string string string  \<comment> \<open>195\<close>
  | UpdatingStatus string string string  \<comment> \<open>208\<close>
  | EditedOk string  \<comment> \<open>220\<close>
  | NotFoundOrNothingToEdit string  \<comment> \<open>222\<close>
  | EditFailed error  \<comment> \<open>224\<close>

datatype find_all_line =
    AllDocumentsHeader  \<comment> \<open>230\<close>
  | PrintedDocument stored  \<comment> \<open>235\<close>
  | NoDocumentFound  \<comment> \<open>238\<close>
  | FindAllFailed error  \<comment> \<open>241\<close>

datatype delete_line =
    Deleted string  \<comment> \<open>251\<close>
  | NotFoundForDeletion string  \<comment> \<open>253\<close>
  | DeleteFailed error  \<comment> \<open>255\<close>

datatype location_line =
    LocationHeader string  \<comment> \<open>263\<close>
  | PrintedAsset string string string  \<comment> \<open>268\<close>
  | NoAssetAtLocation string  \<comment> \<open>271\<close>
  | FindByLocationFailed error  \<comment> \<open>274\<close>

datatype criteria_line =
    StatusOrCategoryHeader string string  \<comment> \<open>285\<close>
  | StatusHeader string  \<comment> \<open>288\<close>
  | CategoryHeader string  \<comment> \<open>291\<close>
  | GiveStatusOrCategory  \<comment> \<open>293\<close>
  | PrintedAssetFull string string string string string  \<comment> \<open>300\<close>
  | NoAssetForCriteria  \<comment> \<open>303\<close>
  | FindByCriteriaFailed error  \<comment> \<open>306\<close>

datatype history_line =
    HistoryHeader string  \<comment> \<open>313\<close>
  | HistoryName string  \<comment> \<open>317\<close>
  | PrintedEntry movement_entry  \<comment> \<open>319\<close>
  | NoHistory string  \<comment> \<open>322\<close>
  | HistoryFailed error  \<comment> \<open>325\<close>

datatype count_line =
    CountHeader  \<comment> \<open>334\<close>
  | PrintedCount "string option" nat  \<comment> \<open>343\<close>
  | NoCountFound  \<comment> \<open>346\<close>
  | CountFailed error  \<comment> \<open>349\<close>

datatype category_status_line =
    CategoryStatusHeader  \<comment> \<open>357\<close>
  | PrintedCategoryStatus string string nat  \<comment> \<open>366\<close>
  | NoCategoryStatusFound  \<comment> \<open>369\<close>
  | CategoryStatusFailed error  \<comment> \<open>372\<close>

datatype line =
    OfImport import_line
  | OfInsert insert_line
  | OfEdit edit_line
  | OfFindAll find_all_line
  | OfDelete delete_line
  | OfLocation location_line
  | OfCriteria criteria_line
  | OfHistory history_line
  | OfCount count_line
  | OfCategoryStatus category_status_line

section \<open>The store\<close>

text \<open>
  The state the functions act on: the collection (in natural order), the counter the
  fresh \<^verbatim>\<open>_id\<close>s come from, the lines printed so far, and a fault schedule for the store.
  Each call that reaches the server consumes the head of \<open>faults\<close> and raises
  \<open>PyMongoError\<close> when it is \<open>True\<close>; an empty schedule means the store never fails again.
\<close>

record world =
  docs :: "stored list"
  next_oid :: nat
  faults :: "bool list"
  out :: "line list"

definition print :: "line \<Rightarrow> world \<Rightarrow> world" where
  "print l w = w\<lparr>out := out w @ [l]\<rparr>"

definition server_call :: "world \<Rightarrow> bool \<times> world" where
  "server_call w = (case faults w of [] \<Rightarrow> (False, w) | b # bs \<Rightarrow> (b, w\<lparr>faults := bs\<rparr>))"

text \<open>\<^verbatim>\<open>collection.count_documents({})\<close>\<close>

definition count_documents :: "world \<Rightarrow> (error + nat) \<times> world" where
  "count_documents w =
     (case server_call w of
        (True, w') \<Rightarrow> (Inl PyMongoError, w')
      | (False, w') \<Rightarrow> (Inr (length (docs w')), w'))"

text \<open>\<^verbatim>\<open>collection.find_one({"asset_id": asset_id})\<close>: the first match in natural order.\<close>

definition find_one :: "string \<Rightarrow> world \<Rightarrow> (error + stored option) \<times> world" where
  "find_one aid w =
     (case server_call w of
        (True, w') \<Rightarrow> (Inl PyMongoError, w')
      | (False, w') \<Rightarrow> (Inr (find (\<lambda>d. asset_id (doc d) = aid) (docs w')), w'))"

text \<open>\<^verbatim>\<open>list(collection.find(filter))\<close>\<close>

definition find_all :: "(asset \<Rightarrow> bool) \<Rightarrow> world \<Rightarrow> (error + stored list) \<times> world" where
  "find_all P w =
     (case server_call w of
        (True, w') \<Rightarrow> (Inl PyMongoError, w')
      | (False, w') \<Rightarrow> (Inr (filter (\<lambda>d. P (doc d)) (docs w')), w'))"

text \<open>\<^verbatim>\<open>collection.delete_many({})\<close>; the result is the number of documents deleted.\<close>

definition delete_many :: "world \<Rightarrow> (error + nat) \<times> world" where
  "delete_many w =
     (case server_call w of
        (True, w') \<Rightarrow> (Inl PyMongoError, w')
      | (False, w') \<Rightarrow> (Inr (length (docs w')), w'\<lparr>docs := []\<rparr>))"

text \<open>
  \<^verbatim>\<open>collection.insert_many(documents)\<close>: the driver refuses an empty list with a
  \<^verbatim>\<open>TypeError\<close> before it contacts the server; otherwise each document gets a fresh
  \<^verbatim>\<open>_id\<close> and is appended. The result is \<^verbatim>\<open>inserted_ids\<close>. A failed call is modelled as
  inserting nothing.
\<close>

fun with_ids :: "nat \<Rightarrow> asset list \<Rightarrow> stored list" where
  "with_ids k [] = []"
| "with_ids k (d # ds) = \<lparr>oid = k, doc = d\<rparr> # with_ids (Suc k) ds"

definition insert_many :: "asset list \<Rightarrow> world \<Rightarrow> (error + nat list) \<times> world" where
  "insert_many ds w =
     (if ds = [] then (Inl TypeError, w)
      else case server_call w of
        (True, w') \<Rightarrow> (Inl PyMongoError, w')
      | (False, w') \<Rightarrow>
          (Inr (map oid (with_ids (next_oid w') ds)),
           w'\<lparr>docs := docs w' @ with_ids (next_oid w') ds,
              next_oid := next_oid w' + length ds\<rparr>))"

text \<open>
  \<^verbatim>\<open>collection.update_one({"asset_id": asset_id}, {"$set": fields, "$push":
  {"movement_history": entry}})\<close>: the first matching document gets the fields of \<open>$set\<close>
  and the entry at the end of its history. The result is \<^verbatim>\<open>modified_count\<close>: the
  \<open>$push\<close> changes any document it is applied to. An empty \<open>$set\<close> changes nothing
  (a server that rejects it, as those before MongoDB 5.0 did, is a failing call of the
  fault schedule).
\<close>

record update_fields =
  set_location :: "string option"
  set_status :: "string option"

definition apply_update :: "update_fields \<Rightarrow> movement_entry \<Rightarrow> asset \<Rightarrow> asset" where
  "apply_update u e a =
     a\<lparr>location := (case set_location u of Some l \<Rightarrow> Some l | None \<Rightarrow> location a),
       status := (case set_status u of Some s \<Rightarrow> Some s | None \<Rightarrow> status a),
       movement_history := movement_history a @ [e]\<rparr>"

fun update_first :: "string \<Rightarrow> (asset \<Rightarrow> asset) \<Rightarrow> stored list \<Rightarrow> stored list" where
  "update_first aid f [] = []"
| "update_first aid f (d # ds) =
     (if asset_id (doc d) = aid then d\<lparr>doc := f (doc d)\<rparr> # ds
      else d # update_first aid f ds)"

definition update_one ::
    "string \<Rightarrow> update_fields \<Rightarrow> movement_entry \<Rightarrow> world \<Rightarrow> (error + nat) \<times> world" where
  "update_one aid u e w =
     (case server_call w of
        (True, w') \<Rightarrow> (Inl PyMongoError, w')
      | (False, w') \<Rightarrow>
          (Inr (if list_ex (\<lambda>d. asset_id (doc d) = aid) (docs w') then 1 else 0),
           w'\<lparr>docs := update_first aid (apply_update u e) (docs w')\<rparr>))"

text \<open>\<^verbatim>\<open>collection.delete_one({"asset_id": asset_id})\<close>; the result is \<^verbatim>\<open>deleted_count\<close>.\<close>

fun remove_first :: "string \<Rightarrow> stored list \<Rightarrow> stored list" where
  "remove_first aid [] = []"
| "remove_first aid (d # ds) =
     (if asset_id (doc d) = aid then ds else d # remove_first aid ds)"

definition delete_one :: "string \<Rightarrow> world \<Rightarrow> (error + nat) \<times> world" where
  "delete_one aid w =
     (case server_call w of
        (True, w') \<Rightarrow> (Inl PyMongoError, w')
      | (False, w') \<Rightarrow>
          (Inr (if list_ex (\<lambda>d. asset_id (doc d) = aid) (docs w') then 1 else 0),
           w'\<lparr>docs := remove_first aid (docs w')\<rparr>))"

text \<open>
  \<^verbatim>\<open>collection.aggregate(pipeline)\<close> for the two pipelines of the source, each a
  \<open>$group\<close> with \<^verbatim>\<open>{"$sum": 1}\<close> followed by a \<open>$sort\<close>. \<open>group_count\<close> is
  the \<open>$group\<close> stage on the list of group keys: one pair per distinct key, with the
  number of documents that have it. The server leaves the order of the groups, and of
  groups the sort key does not separate, open; the model keeps the order of first
  occurrence.
\<close>

definition group_count :: "'k list \<Rightarrow> ('k \<times> nat) list" where
  "group_count ks = map (\<lambda>k. (k, count_list ks k)) (remdups ks)"

text \<open>
  \<^verbatim>\<open>[{"$group": {"_id": "$location", "count": {"$sum": 1}}}, {"$sort": {"count": -1}}]\<close>.
  A document without \<open>location\<close> is grouped under \<open>None\<close> (null).
\<close>

definition group_by_location :: "stored list \<Rightarrow> (string option \<times> nat) list" where
  "group_by_location ds = group_count (map (\<lambda>d. location (doc d)) ds)"

definition sort_count_desc :: "('k \<times> nat) list \<Rightarrow> ('k \<times> nat) list" where
  "sort_count_desc rs = sort_key (\<lambda>r. - int (snd r)) rs"

definition aggregate_count_by_location ::
    "world \<Rightarrow> (error + (string option \<times> nat) list) \<times> world" where
  "aggregate_count_by_location w =
     (case server_call w of
        (True, w') \<Rightarrow> (Inl PyMongoError, w')
      | (False, w') \<Rightarrow> (Inr (sort_count_desc (group_by_location (docs w'))), w'))"

text \<open>
  \<^verbatim>\<open>[{"$group": {"_id": {"category": "$category", "status": "$status"}, "count":
  {"$sum": 1}}}, {"$sort": {"_id.category": 1, "count": -1}}]\<close>: by category ascending
  (strings compare by their bytes), then by count descending. For a document without
  \<open>status\<close> the \<open>_id\<close> of its group has no \<open>status\<close> key; this is the key
  \<open>None\<close> of the model.
\<close>

definition sort_category_count ::
    "((string \<times> string option) \<times> nat) list \<Rightarrow> ((string \<times> string option) \<times> nat) list" where
  "sort_category_count rs = sort_key (\<lambda>r. (fst (fst r), - int (snd r))) rs"

definition aggregate_count_by_category_status ::
    "world \<Rightarrow> (error + ((string \<times> string option) \<times> nat) list) \<times> world" where
  "aggregate_count_by_category_status w =
     (case server_call w of
        (True, w') \<Rightarrow> (Inl PyMongoError, w')
      | (False, w') \<Rightarrow>
          (Inr (sort_category_count
                  (group_count (map (\<lambda>d. (category (doc d), status (doc d))) (docs w')))), w'))"

section \<open>The source table\<close>

text \<open>
  What \<^verbatim>\<open>os.path.exists\<close> and \<^verbatim>\<open>pd.read_csv\<close> give for the path: no file, a file that
  cannot be read, or a table. A row holds the \<^verbatim>\<open>str\<close> of each of the five columns the
  import reads, \<open>None\<close> for a column the table lacks.
\<close>

record row =
  product_id :: "string option"
  product_name :: "string option"
  col_category :: "string option"
  col_brand :: "string option"
  col_description :: "string option"

datatype csv_source = NoFile | Unreadable | Table "row list"

text \<open>\<^verbatim>\<open>df.head(n)\<close>: the first \<open>n\<close> rows; for a negative \<open>n\<close>, all rows but the last \<open>-n\<close>.\<close>

definition head :: "int \<Rightarrow> 'a list \<Rightarrow> 'a list" where
  "head n xs = (if 0 \<le> n then take (nat n) xs else take (length xs - nat (- n)) xs)"

text \<open>\<^verbatim>\<open>str(row.get(column, ""))\<close>\<close>

definition get_str :: "string option \<Rightarrow> string" where
  "get_str c = (case c of Some s \<Rightarrow> s | None \<Rightarrow> [])"

section \<open>The functions of the registry\<close>

subsection \<open>\<open>importar_csv_para_mongodb\<close> (lines 51-112)\<close>

definition doc_of_row :: "row \<Rightarrow> asset" where
  "doc_of_row r =
     \<lparr>asset_id = get_str (product_id r),
      asset_name = get_str (product_name r),
      category = get_str (col_category r),
      brand = get_str (col_brand r),
      description = get_str (col_description r),
      location = Some ''Armazenagem Principal'',
      status = Some ''Em Uso'',
      acquisition_date = ''2023-01-01'',
      movement_history =
        [\<lparr>date = ''2023-01-01 00:00:00'',
          type = Aquisicao,
          from_location = Some ''Fornecedor'',
          to_location = Some ''Armazenagem Principal'',
          responsible = ''Sistema Inicial''\<rparr>]\<rparr>"

text \<open>
  The value returned is Python's \<open>None\<close> on every path: the function has no
  \<^verbatim>\<open>return\<close> with a value. No exception leaves it: all the store calls are inside
  the \<^verbatim>\<open>try\<close>.
\<close>

definition importar_csv_para_mongodb ::
    "world \<Rightarrow> csv_source \<Rightarrow> string \<Rightarrow> int \<Rightarrow> (error + nat option) \<times> world" where
  "importar_csv_para_mongodb w src csv_path num_registros =
     (case src of
        NoFile \<Rightarrow> (Inr None, print (OfImport (CsvNotFound csv_path)) w)
      | Unreadable \<Rightarrow> (Inr None, print (OfImport (ImportFailed ReadCsvError)) w)
      | Table df \<Rightarrow>
          (let w1 = print (OfImport (CsvLoaded csv_path (length df))) w;
               df_sample = (if int (length df) > num_registros then head num_registros df else df);
               w2 = (if int (length df) > num_registros
                     then print (OfImport (ProcessingFirst num_registros)) w1
                     else print (OfImport (ProcessingAll (length df))) w1);
               documents = map doc_of_row df_sample
           in if documents \<noteq> [] then
                (case delete_many w2 of
                   (Inl e, w3) \<Rightarrow> (Inr None, print (OfImport (ImportFailed e)) w3)
                 | (Inr _, w3) \<Rightarrow>
                     (case insert_many documents w3 of
                        (Inl e, w4) \<Rightarrow> (Inr None, print (OfImport (ImportFailed e)) w4)
                      | (Inr inserted_ids, w4) \<Rightarrow>
                          (Inr None, print (OfImport (Imported (length inserted_ids))) w4)))
              else (Inr None, print (OfImport NothingToImport) w2)))"

subsection \<open>\<open>inserir_documento_extra\<close> (lines 139-173)\<close>

text \<open>The dict of lines 147-165, from the count read at line 146 and the loop index.\<close>

definition new_asset :: "nat \<Rightarrow> nat \<Rightarrow> asset" where
  "new_asset c i =
     \<lparr>asset_id = ''NEWASSET'' @ str_nat (c + 1 + i),
      asset_name = ''Item Teste '' @ str_nat (i + 1),
      category = Eletronico,
      brand = Generica,
      description = ''Descri'' @ c_cedilha @ a_til @ ''o do Item Teste '' @ str_nat (i + 1)
                    @ '' para demonstra'' @ c_cedilha @ a_til @ ''o.'',
      location = Some Laboratorio_101,
      status = Some ''Ativo'',
      acquisition_date = ''2024-05-15'',
      movement_history =
        [\<lparr>date = ''2024-05-15 10:00:00'',
          type = Aquisicao,
          from_location = Some ''Fornecedor'',
          to_location = Some Laboratorio_101,
          responsible = ''Administrador''\<rparr>]\<rparr>"

text \<open>
  The loop of lines 145-166 over the indices still to come. It calls
  \<^verbatim>\<open>count_documents\<close> in every iteration, outside any \<^verbatim>\<open>try\<close>: a failure there leaves
  the function as an exception.
\<close>

fun new_assets_loop :: "nat list \<Rightarrow> asset list \<Rightarrow> world \<Rightarrow> (error + asset list) \<times> world" where
  "new_assets_loop [] new_assets w = (Inr new_assets, w)"
| "new_assets_loop (i # is) new_assets w =
     (case count_documents w of
        (Inl e, w') \<Rightarrow> (Inl e, w')
      | (Inr c, w') \<Rightarrow> new_assets_loop is (new_assets @ [new_asset c i]) w')"

definition inserir_documento_extra :: "world \<Rightarrow> int \<Rightarrow> (error + nat list) \<times> world" where
  "inserir_documento_extra w num_docs =
     (case new_assets_loop [0..<nat num_docs] [] w of
        (Inl e, w1) \<Rightarrow> (Inl e, w1)
      | (Inr new_assets, w1) \<Rightarrow>
          (case insert_many new_assets w1 of
             (Inl e, w2) \<Rightarrow> (Inr [], print (OfInsert (InsertExtraFailed e)) w2)
           | (Inr inserted_ids, w2) \<Rightarrow>
               (Inr inserted_ids, print (OfInsert (InsertedExtra (length inserted_ids))) w2)))"

subsection \<open>\<open>editar_documento\<close> (lines 175-224)\<close>

text \<open>Python's truth test of an optional string argument: \<open>None\<close> and \<open>""\<close> are false.\<close>

definition truthy :: "string option \<Rightarrow> bool" where
  "truthy a = (case a of None \<Rightarrow> False | Some s \<Rightarrow> s \<noteq> [])"

text \<open>\<^verbatim>\<open>current_asset.get("location", "Desconhecida") if current_asset else "Desconhecida"\<close>
  and the same for the status.\<close>

definition get_location :: "stored option \<Rightarrow> string" where
  "get_location current_asset =
     (case current_asset of
        None \<Rightarrow> ''Desconhecida''
      | Some d \<Rightarrow> (case location (doc d) of None \<Rightarrow> ''Desconhecida'' | Some l \<Rightarrow> l))"

definition get_status :: "stored option \<Rightarrow> string" where
  "get_status current_asset =
     (case current_asset of
        None \<Rightarrow> ''Desconhecido''
      | Some d \<Rightarrow> (case status (doc d) of None \<Rightarrow> ''Desconhecido'' | Some s \<Rightarrow> s))"

text \<open>
  Lines 188-195. The two local dicts \<open>update_fields\<close> and \<open>movement_entry\<close> are passed
  along as a pair. The \<^verbatim>\<open>find_one\<close> is outside the \<^verbatim>\<open>try\<close>.
\<close>

definition edit_location ::
    "string \<Rightarrow> string option \<Rightarrow> update_fields \<times> movement_entry \<Rightarrow> world
     \<Rightarrow> (error + update_fields \<times> movement_entry) \<times> world" where
  "edit_location aid new_location st w =
     (case new_location of
        None \<Rightarrow> (Inr st, w)
      | Some nl \<Rightarrow>
          if nl = [] then (Inr st, w)
          else (case find_one aid w of
                  (Inl e, w') \<Rightarrow> (Inl e, w')
                | (Inr current_asset, w') \<Rightarrow>
                    (let old_location = get_location current_asset
                     in (Inr ((fst st)\<lparr>set_location := Some nl\<rparr>,
                              (snd st)\<lparr>from_location := Some old_location,
                                       to_location := Some nl\<rparr>),
                         print (OfEdit (UpdatingLocation aid old_location nl)) w'))))"

text \<open>Lines 197-208. Again the \<^verbatim>\<open>find_one\<close> is outside the \<^verbatim>\<open>try\<close>.\<close>

definition edit_status ::
    "string \<Rightarrow> string option \<Rightarrow> string option \<Rightarrow> update_fields \<times> movement_entry \<Rightarrow> world
     \<Rightarrow> (error + update_fields \<times> movement_entry) \<times> world" where
  "edit_status aid new_location new_status st w =
     (case new_status of
        None \<Rightarrow> (Inr st, w)
      | Some ns \<Rightarrow>
          if ns = [] then (Inr st, w)
          else (case find_one aid w of
                  (Inl e, w') \<Rightarrow> (Inl e, w')
                | (Inr current_asset, w') \<Rightarrow>
                    (let old_status = get_status current_asset
                     in (Inr ((fst st)\<lparr>set_status := Some ns\<rparr>,
                              (if \<not> truthy new_location
                               then (snd st)\<lparr>type := Atualizacao_de_Status @ old_status
                                                       @ '' para '' @ ns,
                                             from_location := Some (get_location current_asset),
                                             to_location := Some (get_location current_asset)\<rparr>
                               else snd st)),
                         print (OfEdit (UpdatingStatus aid old_status ns)) w'))))"

text \<open>
  The whole function; \<open>aid\<close> is the argument \<open>asset_id\<close>, and \<open>current_time\<close> is what \<^verbatim>\<open>pd.Timestamp.now()\<close> gives, formatted.
  Only the \<^verbatim>\<open>update_one\<close> of lines 210-224 is inside the \<^verbatim>\<open>try\<close>, and it is called
  on every path, with the \<open>$push\<close> of the entry.
\<close>

definition editar_documento ::
    "world \<Rightarrow> string \<Rightarrow> string \<Rightarrow> string option \<Rightarrow> string option \<Rightarrow> (error + unit) \<times> world" where
  "editar_documento w aid current_time new_location new_status =
     (let update_fields = \<lparr>set_location = None, set_status = None\<rparr>;
          movement_entry = \<lparr>date = current_time, type = Movimentacao,
                            from_location = None, to_location = None,
                            responsible = Usuario_App\<rparr>
      in case edit_location aid new_location (update_fields, movement_entry) w of
           (Inl e, w1) \<Rightarrow> (Inl e, w1)
         | (Inr st1, w1) \<Rightarrow>
             (case edit_status aid new_location new_status st1 w1 of
                (Inl e, w2) \<Rightarrow> (Inl e, w2)
              | (Inr st2, w2) \<Rightarrow>
                  (case update_one aid (fst st2) (snd st2) w2 of
                     (Inl e, w3) \<Rightarrow> (Inr (), print (OfEdit (EditFailed e)) w3)
                   | (Inr modified_count, w3) \<Rightarrow>
                       (Inr (), print (OfEdit (if modified_count > 0 then EditedOk aid
                                       else NotFoundOrNothingToEdit aid)) w3))))"

subsection \<open>\<open>buscar_todos_documentos\<close> (lines 226-242)\<close>

definition buscar_todos_documentos :: "world \<Rightarrow> (error + stored list) \<times> world" where
  "buscar_todos_documentos w =
     (case find_all (\<lambda>_. True) (print (OfFindAll AllDocumentsHeader) w) of
        (Inl e, w1) \<Rightarrow> (Inr [], print (OfFindAll (FindAllFailed e)) w1)
      | (Inr documents, w1) \<Rightarrow>
          if documents \<noteq> []
          then (Inr documents, w1\<lparr>out := out w1 @ map (\<lambda>d. OfFindAll (PrintedDocument d)) documents\<rparr>)
          else (Inr [], print (OfFindAll NoDocumentFound) w1))"

subsection \<open>\<open>excluir_documento\<close> (lines 244-255)\<close>

definition excluir_documento :: "world \<Rightarrow> string \<Rightarrow> (error + unit) \<times> world" where
  "excluir_documento w aid =
     (case delete_one aid w of
        (Inl e, w1) \<Rightarrow> (Inr (), print (OfDelete (DeleteFailed e)) w1)
      | (Inr deleted_count, w1) \<Rightarrow>
          (Inr (), print (OfDelete (if deleted_count > 0 then Deleted aid
                          else NotFoundForDeletion aid)) w1))"

subsection \<open>\<open>buscar_bens_por_localizacao\<close> (lines 258-275)\<close>

text \<open>
  The loop of lines 267-268: \<^verbatim>\<open>asset['status']\<close> raises \<open>KeyError\<close> on a document
  without that key; the lines printed before it stay printed.
\<close>

fun print_assets :: "stored list \<Rightarrow> world \<Rightarrow> (error + unit) \<times> world" where
  "print_assets [] w = (Inr (), w)"
| "print_assets (a # as) w =
     (case status (doc a) of
        None \<Rightarrow> (Inl KeyError, w)
      | Some s \<Rightarrow> print_assets as (print (OfLocation (PrintedAsset (asset_id (doc a)) (asset_name (doc a)) s)) w))"

definition buscar_bens_por_localizacao :: "world \<Rightarrow> string \<Rightarrow> (error + stored list) \<times> world" where
  "buscar_bens_por_localizacao w loc =
     (case find_all (\<lambda>a. location a = Some loc) (print (OfLocation (LocationHeader loc)) w) of
        (Inl e, w1) \<Rightarrow> (Inr [], print (OfLocation (FindByLocationFailed e)) w1)
      | (Inr assets, w1) \<Rightarrow>
          if assets \<noteq> []
          then (case print_assets assets w1 of
                  (Inl e, w2) \<Rightarrow> (Inr [], print (OfLocation (FindByLocationFailed e)) w2)
                | (Inr _, w2) \<Rightarrow> (Inr assets, w2))
          else (Inr [], print (OfLocation (NoAssetAtLocation loc)) w1))"

subsection \<open>\<open>buscar_bens_com_status_ou_categoria\<close> (lines 277-307)\<close>

fun print_assets_full :: "stored list \<Rightarrow> world \<Rightarrow> (error + unit) \<times> world" where
  "print_assets_full [] w = (Inr (), w)"
| "print_assets_full (a # as) w =
     (case location (doc a) of
        None \<Rightarrow> (Inl KeyError, w)
      | Some l \<Rightarrow>
          (case status (doc a) of
             None \<Rightarrow> (Inl KeyError, w)
           | Some s \<Rightarrow>
               print_assets_full as
                 (print (OfCriteria (PrintedAssetFull (asset_id (doc a)) (asset_name (doc a)) l s
                           (category (doc a)))) w)))"

definition find_and_print_full :: "(asset \<Rightarrow> bool) \<Rightarrow> world \<Rightarrow> (error + stored list) \<times> world" where
  "find_and_print_full query w =
     (case find_all query w of
        (Inl e, w1) \<Rightarrow> (Inr [], print (OfCriteria (FindByCriteriaFailed e)) w1)
      | (Inr assets, w1) \<Rightarrow>
          if assets \<noteq> []
          then (case print_assets_full assets w1 of
                  (Inl e, w2) \<Rightarrow> (Inr [], print (OfCriteria (FindByCriteriaFailed e)) w2)
                | (Inr _, w2) \<Rightarrow> (Inr assets, w2))
          else (Inr [], print (OfCriteria NoAssetForCriteria) w1))"

definition buscar_bens_com_status_ou_categoria ::
    "world \<Rightarrow> string option \<Rightarrow> string option \<Rightarrow> (error + stored list) \<times> world" where
  "buscar_bens_com_status_ou_categoria w st cat =
     (if truthy st \<and> truthy cat then
        find_and_print_full (\<lambda>a. status a = st \<or> Some (category a) = cat)
          (print (OfCriteria (StatusOrCategoryHeader (get_str st) (get_str cat))) w)
      else if truthy st then
        find_and_print_full (\<lambda>a. status a = st) (print (OfCriteria (StatusHeader (get_str st))) w)
      else if truthy cat then
        find_and_print_full (\<lambda>a. Some (category a) = cat) (print (OfCriteria (CategoryHeader (get_str cat))) w)
      else (Inr [], print (OfCriteria GiveStatusOrCategory) w))"

subsection \<open>\<open>buscar_historico_de_movimentacao\<close> (lines 309-326)\<close>

definition buscar_historico_de_movimentacao ::
    "world \<Rightarrow> string \<Rightarrow> (error + movement_entry list) \<times> world" where
  "buscar_historico_de_movimentacao w aid =
     (case find_one aid (print (OfHistory (HistoryHeader aid)) w) of
        (Inl e, w1) \<Rightarrow> (Inr [], print (OfHistory (HistoryFailed e)) w1)
      | (Inr None, w1) \<Rightarrow> (Inr [], print (OfHistory (NoHistory aid)) w1)
      | (Inr (Some asset), w1) \<Rightarrow>
          (Inr (movement_history (doc asset)),
           w1\<lparr>out := out w1 @ OfHistory (HistoryName (asset_name (doc asset)))
                      # map (\<lambda>e. OfHistory (PrintedEntry e)) (movement_history (doc asset))\<rparr>))"

subsection \<open>\<open>contar_bens_por_localizacao\<close> (lines 329-350)\<close>

definition contar_bens_por_localizacao ::
    "world \<Rightarrow> (error + (string option \<times> nat) list) \<times> world" where
  "contar_bens_por_localizacao w =
     (case aggregate_count_by_location (print (OfCount CountHeader) w) of
        (Inl e, w1) \<Rightarrow> (Inr [], print (OfCount (CountFailed e)) w1)
      | (Inr results, w1) \<Rightarrow>
          if results \<noteq> []
          then (Inr results, w1\<lparr>out := out w1 @ map (\<lambda>r. OfCount (PrintedCount (fst r) (snd r))) results\<rparr>)
          else (Inr [], print (OfCount NoCountFound) w1))"

subsection \<open>\<open>contar_bens_por_categoria_e_status\<close> (lines 352-373)\<close>

text \<open>
  The loop of lines 365-366: \<^verbatim>\<open>result['_id']['status']\<close> raises \<open>KeyError\<close> on a
  group whose \<open>_id\<close> has no \<open>status\<close> key; the lines printed before it stay printed,
  and the \<^verbatim>\<open>except\<close> of line 371 catches it.
\<close>

fun print_category_status ::
    "((string \<times> string option) \<times> nat) list \<Rightarrow> world \<Rightarrow> (error + unit) \<times> world" where
  "print_category_status [] w = (Inr (), w)"
| "print_category_status (r # rs) w =
     (case snd (fst r) of
        None \<Rightarrow> (Inl KeyError, w)
      | Some s \<Rightarrow>
          print_category_status rs
            (print (OfCategoryStatus (PrintedCategoryStatus (fst (fst r)) s (snd r))) w))"

definition contar_bens_por_categoria_e_status ::
    "world \<Rightarrow> (error + ((string \<times> string option) \<times> nat) list) \<times> world" where
  "contar_bens_por_categoria_e_status w =
     (case aggregate_count_by_category_status (print (OfCategoryStatus CategoryStatusHeader) w) of
        (Inl e, w1) \<Rightarrow> (Inr [], print (OfCategoryStatus (CategoryStatusFailed e)) w1)
      | (Inr results, w1) \<Rightarrow>
          if results \<noteq> []
          then (case print_category_status results w1 of
                  (Inl e, w2) \<Rightarrow> (Inr [], print (OfCategoryStatus (CategoryStatusFailed e)) w2)
                | (Inr _, w2) \<Rightarrow> (Inr results, w2))
          else (Inr [], print (OfCategoryStatus NoCategoryStatusFound) w1))"

section \<open>The operations as one step function\<close>

text \<open>
  The ten operations of the registry, with their arguments, and the state each leaves
  behind, whether it returned or raised.
\<close>

datatype operation =
    Import csv_source string int
  | Insert int
  | Edit string string "string option" "string option"
  | Delete string
  | FindAll
  | FindByLocation string
  | FindByStatusOrCategory "string option" "string option"
  | FindMovementHistory string
  | CountByLocation
  | CountByCategoryAndStatus

fun run :: "operation \<Rightarrow> world \<Rightarrow> world" where
  "run (Import src csv_path num_registros) w = snd (importar_csv_para_mongodb w src csv_path num_registros)"
| "run (Insert num_docs) w = snd (inserir_documento_extra w num_docs)"
| "run (Edit aid current_time new_location new_status) w =
     snd (editar_documento w aid current_time new_location new_status)"
| "run (Delete aid) w = snd (excluir_documento w aid)"
| "run FindAll w = snd (buscar_todos_documentos w)"
| "run (FindByLocation loc) w = snd (buscar_bens_por_localizacao w loc)"
| "run (FindByStatusOrCategory st cat) w = snd (buscar_bens_com_status_ou_categoria w st cat)"
| "run (FindMovementHistory aid) w = snd (buscar_historico_de_movimentacao w aid)"
| "run CountByLocation w = snd (contar_bens_por_localizacao w)"
| "run CountByCategoryAndStatus w = snd (contar_bens_por_categoria_e_status w)"

section \<open>Sample data\<close>

text \<open>Two rows of a source table and small collections, used to run the functions on.\<close>

definition row1 :: row where
  "row1 = \<lparr>product_id = Some ''1'', product_name = Some ''Milk'', col_category = Some ''Food'',
           col_brand = Some ''Acme'', col_description = None\<rparr>"

definition one_world :: world where
  "one_world = \<lparr>docs = [\<lparr>oid = 0, doc = doc_of_row row1\<rparr>], next_oid = 1, faults = [], out = []\<rparr>"

definition row2 :: row where
  "row2 = \<lparr>product_id = Some ''2'', product_name = Some ''Soap'', col_category = Some ''Home'',
           col_brand = None, col_description = Some ''bar''\<rparr>"

definition empty_world :: world where
  "empty_world = \<lparr>docs = [], next_oid = 0, faults = [], out = []\<rparr>"

text \<open>The collection of one document behind a store whose next call fails.\<close>

definition failing_world :: world where
  "failing_world = one_world\<lparr>faults := [True]\<rparr>"

text \<open>Four documents, three at one location and one at another.\<close>

definition four_world :: world where
  "four_world =
     \<lparr>docs = [\<lparr>oid = 0, doc = (doc_of_row row1)\<lparr>location := Some ''Lab''\<rparr>\<rparr>,
              \<lparr>oid = 1, doc = (doc_of_row row2)\<lparr>location := Some ''Sala''\<rparr>\<rparr>,
              \<lparr>oid = 2, doc = (doc_of_row row1)\<lparr>location := Some ''Lab''\<rparr>\<rparr>,
              \<lparr>oid = 3, doc = (doc_of_row row2)\<lparr>location := Some ''Lab''\<rparr>\<rparr>],
      next_oid = 4, faults = [], out = []\<rparr>"

section \<open>Properties of a movement history\<close>

text \<open>
  A document as \<open>importar_csv_para_mongodb\<close> and \<open>inserir_documento_extra\<close> make it
  has one entry, the acquisition; \<open>history_ok\<close> is what stays true of it afterwards.
  \<open>extends_history old d'\<close> compares a stored document with the document of the same
  store identifier in an earlier collection, if there is one.
\<close>

abbreviation fresh_asset :: "asset \<Rightarrow> bool" where
  "fresh_asset a \<equiv> length (movement_history a) = 1 \<and> type (hd (movement_history a)) = Aquisicao"

abbreviation history_ok :: "stored \<Rightarrow> bool" where
  "history_ok d \<equiv> movement_history (doc d) \<noteq> []
                  \<and> type (hd (movement_history (doc d))) = Aquisicao"

abbreviation extends_history :: "stored list \<Rightarrow> stored \<Rightarrow> bool" where
  "extends_history old d' \<equiv>
     (case find (\<lambda>d. oid d = oid d') old of
        Some d \<Rightarrow> prefix (movement_history (doc d)) (movement_history (doc d'))
                  \<and> length (movement_history (doc d')) \<le> Suc (length (movement_history (doc d)))
      | None \<Rightarrow> fresh_asset (doc d'))"

text \<open>
  \<open>appended d d'\<close>: the document \<open>d'\<close> is the document \<open>d\<close> of the store with
  nothing taken from its history and at most one entry added at the end.
\<close>

abbreviation appended :: "stored \<Rightarrow> stored \<Rightarrow> bool" where
  "appended d d' \<equiv> oid d' = oid d
     \<and> prefix (movement_history (doc d)) (movement_history (doc d'))
     \<and> length (movement_history (doc d')) \<le> Suc (length (movement_history (doc d)))"

section \<open>The store when it does not fail\<close>

lemma server_call_quiet: "faults w = [] \<Longrightarrow> server_call w = (False, w)"
  by (simp add: server_call_def)

lemma count_documents_quiet: "faults w = [] \<Longrightarrow> count_documents w = (Inr (length (docs w)), w)"
  by (simp add: count_documents_def server_call_quiet)

lemma find_one_quiet:
  "faults w = [] \<Longrightarrow> find_one aid w = (Inr (find (\<lambda>d. asset_id (doc d) = aid) (docs w)), w)"
  by (simp add: find_one_def server_call_quiet)

lemma find_all_quiet:
  "faults w = [] \<Longrightarrow> find_all P w = (Inr (filter (\<lambda>d. P (doc d)) (docs w)), w)"
  by (simp add: find_all_def server_call_quiet)

lemma delete_many_quiet:
  "faults w = [] \<Longrightarrow> delete_many w = (Inr (length (docs w)), w\<lparr>docs := []\<rparr>)"
  by (simp add: delete_many_def server_call_quiet)

lemma insert_many_quiet:
  "faults w = [] \<Longrightarrow> ds \<noteq> [] \<Longrightarrow>
   insert_many ds w =
     (Inr (map oid (with_ids (next_oid w) ds)),
      w\<lparr>docs := docs w @ with_ids (next_oid w) ds, next_oid := next_oid w + length ds\<rparr>)"
  by (simp add: insert_many_def server_call_quiet)

lemma update_one_quiet:
  "faults w = [] \<Longrightarrow>
   update_one aid u e w =
     (Inr (if list_ex (\<lambda>d. asset_id (doc d) = aid) (docs w) then 1 else 0),
      w\<lparr>docs := update_first aid (apply_update u e) (docs w)\<rparr>)"
  by (simp add: update_one_def server_call_quiet)

lemma delete_one_quiet:
  "faults w = [] \<Longrightarrow>
   delete_one aid w =
     (Inr (if list_ex (\<lambda>d. asset_id (doc d) = aid) (docs w) then 1 else 0),
      w\<lparr>docs := remove_first aid (docs w)\<rparr>)"
  by (simp add: delete_one_def server_call_quiet)

lemma faults_print [simp]: "faults (print l w) = faults w"
  and docs_print [simp]: "docs (print l w) = docs w"
  and next_oid_print [simp]: "next_oid (print l w) = next_oid w"
  and out_print [simp]: "out (print l w) = out w @ [l]"
  by (simp_all add: print_def)

lemma length_with_ids [simp]: "length (with_ids k ds) = length ds"
  by (induction ds arbitrary: k) simp_all

lemma map_oid_with_ids: "map oid (with_ids k ds) = [k..<k + length ds]"
  by (induction ds arbitrary: k) (simp_all add: upt_rec)

lemma map_doc_with_ids [simp]: "map doc (with_ids k ds) = ds"
  by (induction ds arbitrary: k) simp_all

lemma digit_val_digit: "d < 10 \<Longrightarrow> digit_val (digit d) = d"
proof -
  assume "d < 10"
  then have "d \<in> {0,1,2,3,4,5,6,7,8,9}" by auto
  then show ?thesis by (auto simp: digit_val_def digit_def)
qed

lemma nat_of_str_snoc: "nat_of_str (s @ [c]) = 10 * nat_of_str s + digit_val c"
  by (simp add: nat_of_str_def)

lemma nat_of_str_str_nat: "nat_of_str (str_nat n) = n"
proof (induction n rule: str_nat.induct)
  case (1 n)
  show ?case
  proof (cases "n < 10")
    case True
    then show ?thesis by (subst str_nat.simps) (simp add: nat_of_str_def digit_val_digit)
  next
    case False
    then have "nat_of_str (str_nat n) = 10 * nat_of_str (str_nat (n div 10)) + digit_val (digit (n mod 10))"
      by (subst str_nat.simps) (simp add: nat_of_str_snoc)
    with False 1 show ?thesis by (simp add: digit_val_digit)
  qed
qed

lemma str_nat_inj: "str_nat m = str_nat n \<Longrightarrow> m = n"
  by (metis nat_of_str_str_nat)

lemma new_assets_loop_quiet:
  "faults w = [] \<Longrightarrow>
   new_assets_loop is acc w = (Inr (acc @ map (new_asset (length (docs w))) is), w)"
  by (induction "is" arbitrary: acc) (simp_all add: count_documents_quiet)

section \<open>Manual insertion\<close>

lemma map_shift: "map (\<lambda>i. f (m + i)) [0..<n] = map f [m..<m + n]"
  by (induction n) simp_all

lemma asset_id_new_asset: "asset_id (new_asset c i) = ''NEWASSET'' @ str_nat (c + 1 + i)"
  by (simp add: new_asset_def)

lemma map_asset_id_with_ids: "map (\<lambda>d. asset_id (doc d)) (with_ids k ds) = map asset_id ds"
  by (induction ds arbitrary: k) simp_all

lemma new_ids: "map asset_id (map (new_asset m) [0..<n])
                 = map (\<lambda>k. ''NEWASSET'' @ str_nat k) [m + 1..<m + 1 + n]"
  using map_shift [of "\<lambda>k. ''NEWASSET'' @ str_nat k" "m + 1" n]
  by (simp add: comp_def asset_id_new_asset)


lemma inserir_quiet:
  assumes "faults w = []" "1 \<le> n"
  shows "snd (inserir_documento_extra w n) =
         print (OfInsert (InsertedExtra (nat n)))
           (w\<lparr>docs := docs w @ with_ids (next_oid w) (map (new_asset (length (docs w))) [0..<nat n]),
              next_oid := next_oid w + nat n\<rparr>)"
proof -
  from assms have ne: "map (new_asset (length (docs w))) [0..<nat n] \<noteq> []" by simp
  show ?thesis
    unfolding inserir_documento_extra_def new_assets_loop_quiet [OF assms(1)]
    by (simp add: insert_many_quiet [OF assms(1) ne])
qed

lemma distinct_new_ids: "distinct (map (\<lambda>k. ''NEWASSET'' @ str_nat k) [a..<b])"
proof -
  have "inj_on (\<lambda>k. ''NEWASSET'' @ str_nat k) A" for A
    by (rule inj_onI) (simp add: str_nat_inj)
  then show ?thesis by (simp add: distinct_map)
qed

lemma one_world_ids:
  "map (\<lambda>k. ''NEWASSET'' @ str_nat k) [Suc 0 + 1..<Suc 0 + 1 + nat 2] = [''NEWASSET2'', ''NEWASSET3'']"
  by code_simp

text \<open>
  Claim C10. When \<open>inserir_documento_extra\<close> is called with \<open>num_docs = n \<ge> 1\<close> on a
  collection of \<open>m\<close> documents and the store does not fail, the loop reads the count
  \<open>m\<close> in every iteration and leaves the collection as it was; the documents then
  inserted have the identifiers \<open>NEWASSET(m+1)\<close> up to \<open>NEWASSET(m+n)\<close>, in this
  order after the documents already there, and these identifiers are pairwise distinct.
\<close>

theorem extra_ids:
  assumes "faults w = []" and "1 \<le> n"
  shows "new_assets_loop [0..<nat n] [] w = (Inr (map (new_asset (length (docs w))) [0..<nat n]), w)
       \<and> map (\<lambda>d. asset_id (doc d)) (docs (snd (inserir_documento_extra w n)))
           = map (\<lambda>d. asset_id (doc d)) (docs w)
             @ map (\<lambda>k. ''NEWASSET'' @ str_nat k) [length (docs w) + 1..<length (docs w) + 1 + nat n]
       \<and> distinct (map (\<lambda>k. ''NEWASSET'' @ str_nat k) [length (docs w) + 1..<length (docs w) + 1 + nat n])"
proof (intro conjI)
  show "new_assets_loop [0..<nat n] [] w = (Inr (map (new_asset (length (docs w))) [0..<nat n]), w)"
    using assms(1) by (simp add: new_assets_loop_quiet)
next
  have "docs (snd (inserir_documento_extra w n))
        = docs w @ with_ids (next_oid w) (map (new_asset (length (docs w))) [0..<nat n])"
    unfolding inserir_quiet [OF assms] by simp
  then show "map (\<lambda>d. asset_id (doc d)) (docs (snd (inserir_documento_extra w n)))
           = map (\<lambda>d. asset_id (doc d)) (docs w)
             @ map (\<lambda>k. ''NEWASSET'' @ str_nat k) [length (docs w) + 1..<length (docs w) + 1 + nat n]"
    by (simp only: map_append map_asset_id_with_ids new_ids)
next
  show "distinct (map (\<lambda>k. ''NEWASSET'' @ str_nat k) [length (docs w) + 1..<length (docs w) + 1 + nat n])"
    by (rule distinct_new_ids)
qed

text \<open>The theorem at a collection of one document and \<open>n = 2\<close>.\<close>

theorem extra_ids_witness:
  "faults one_world = [] \<and> (1::int) \<le> 2
   \<and> map (\<lambda>d. asset_id (doc d)) (docs (snd (inserir_documento_extra one_world 2)))
       = [''1'', ''NEWASSET2'', ''NEWASSET3'']"
proof -
  have f: "faults one_world = []" by (simp add: one_world_def)
  have l: "length (docs one_world) = Suc 0" by (simp add: one_world_def)
  have i: "map (\<lambda>d. asset_id (doc d)) (docs one_world) = [''1'']"
    by (simp add: one_world_def doc_of_row_def row1_def get_str_def)
  have "map (\<lambda>d. asset_id (doc d)) (docs (snd (inserir_documento_extra one_world 2)))
       = [''1'', ''NEWASSET2'', ''NEWASSET3'']"
    using extra_ids [OF f, of 2] unfolding l i one_world_ids by simp
  with f show ?thesis by simp
qed

section \<open>Failures of the store\<close>

text \<open>
  Claim C2. Not every operation catches a failure of the store at every point.
  In \<open>editar_documento\<close> the two \<open>find_one\<close> calls that read the current location
  and status (lines 190 and 199 of the source) stand before the \<open>try\<close>, and in
  \<open>inserir_documento_extra\<close> the \<open>count_documents\<close> call of the loop (line 146)
  stands before the \<open>try\<close> as well. When the store fails at one of these calls the
  error leaves the function: nothing is printed, nothing is returned, and the collection
  is as before.
\<close>

theorem store_failure_escapes:
  "editar_documento failing_world ''1'' ''2024-06-01 09:00:00'' (Some ''Reitoria'') None
     = (Inl PyMongoError, one_world)
   \<and> editar_documento failing_world ''1'' ''2024-06-01 09:00:00'' None (Some ''Desativado'')
     = (Inl PyMongoError, one_world)
   \<and> inserir_documento_extra failing_world 1 = (Inl PyMongoError, one_world)"
  by (simp add: editar_documento_def edit_location_def edit_status_def find_one_def
      inserir_documento_extra_def count_documents_def server_call_def failing_world_def
      one_world_def)

section \<open>Editing with no field\<close>

text \<open>
  Claim C4. \<open>editar_documento\<close> called with neither \<open>new_location\<close> nor
  \<open>new_status\<close> on an asset that exists does write: the update carries the
  \<open>$push\<close> of a movement entry whatever the arguments are, so the asset gets one more
  entry of type \<open>Movimentacao\<close> with neither \<open>from_location\<close> nor
  \<open>to_location\<close>, and the line printed is the one of a successful edit. The
  collection after the call differs from the collection before it.
\<close>

theorem edit_without_fields_writes:
  "editar_documento one_world ''1'' ''2024-06-01 09:00:00'' None None
     = (Inr (),
        one_world\<lparr>docs := [\<lparr>oid = 0,
                             doc = (doc_of_row row1)
                               \<lparr>movement_history := movement_history (doc_of_row row1)
                                  @ [\<lparr>date = ''2024-06-01 09:00:00'', type = Movimentacao,
                                      from_location = None, to_location = None,
                                      responsible = Usuario_App\<rparr>]\<rparr>\<rparr>],
                   out := [OfEdit (EditedOk ''1'')]\<rparr>)
   \<and> docs (snd (editar_documento one_world ''1'' ''2024-06-01 09:00:00'' None None))
       \<noteq> docs one_world"
  by (simp add: editar_documento_def edit_location_def edit_status_def update_one_def
      apply_update_def server_call_def print_def one_world_def doc_of_row_def row1_def
      get_str_def)

section \<open>Bulk import\<close>

lemma importar_returns_None: "fst (importar_csv_para_mongodb w src p n) = Inr None"
  by (simp add: importar_csv_para_mongodb_def Let_def split: csv_source.split prod.split sum.split)

lemma importar_no_table:
  "docs (snd (importar_csv_para_mongodb w NoFile p n)) = docs w"
  "docs (snd (importar_csv_para_mongodb w Unreadable p n)) = docs w"
  by (simp_all add: importar_csv_para_mongodb_def)

lemma importar_quiet:
  assumes "faults w = []"
    and "documents = map doc_of_row (if int (length df) > n then head n df else df)"
    and "documents \<noteq> []"
  shows "docs (snd (importar_csv_para_mongodb w (Table df) p n)) = with_ids (next_oid w) documents"
    and "last (out (snd (importar_csv_para_mongodb w (Table df) p n)))
           = OfImport (Imported (length documents))"
proof -
  let ?w2 = "if int (length df) > n
             then print (OfImport (ProcessingFirst n)) (print (OfImport (CsvLoaded p (length df))) w)
             else print (OfImport (ProcessingAll (length df))) (print (OfImport (CsvLoaded p (length df))) w)"
  have f2: "faults ?w2 = []" using assms(1) by simp
  have f3: "faults (?w2\<lparr>docs := []\<rparr>) = []" using f2 by simp
  have eq: "importar_csv_para_mongodb w (Table df) p n
        = (Inr None, print (OfImport (Imported (length documents)))
             (?w2\<lparr>docs := with_ids (next_oid w) documents,
                   next_oid := next_oid w + length documents\<rparr>))"
    using assms(2,3)
    by (simp add: importar_csv_para_mongodb_def Let_def delete_many_quiet [OF f2]
        insert_many_quiet [OF f3] map_oid_with_ids del: faults_print)
  show "docs (snd (importar_csv_para_mongodb w (Table df) p n)) = with_ids (next_oid w) documents"
    unfolding eq by simp
  show "last (out (snd (importar_csv_para_mongodb w (Table df) p n)))
           = OfImport (Imported (length documents))"
    unfolding eq by simp
qed

lemma importar_no_rows:
  assumes "map doc_of_row (if int (length df) > n then head n df else df) = []"
  shows "docs (snd (importar_csv_para_mongodb w (Table df) p n)) = docs w"
  using assms by (simp add: importar_csv_para_mongodb_def Let_def)

lemma oid_with_ids: "d \<in> set (with_ids k ds) \<Longrightarrow> k \<le> oid d"
proof (induction ds arbitrary: k)
  case Nil
  then show ?case by simp
next
  case (Cons a ds)
  from Cons.prems have "d = \<lparr>oid = k, doc = a\<rparr> \<or> d \<in> set (with_ids (Suc k) ds)" by simp
  then show ?case
  proof
    assume "d = \<lparr>oid = k, doc = a\<rparr>"
    then show ?thesis by simp
  next
    assume "d \<in> set (with_ids (Suc k) ds)"
    then have "Suc k \<le> oid d" by (rule Cons.IH)
    then show ?thesis by simp
  qed
qed

lemma fresh_disjoint:
  assumes "list_all (\<lambda>d. oid d < k) old"
  shows "set (with_ids k ds) \<inter> set old = {}"
proof -
  have "d \<in> set old \<Longrightarrow> oid d < k" for d using assms by (simp add: list_all_iff)
  then show ?thesis using oid_with_ids by fastforce
qed

lemma take_nat_head: "0 \<le> n \<Longrightarrow> head n xs = take (nat n) xs"
  by (simp add: head_def)

text \<open>
  The return value of the import. The function has no \<open>return\<close> with a value: on
  every path it returns \<open>None\<close>. An import of one row into an empty collection
  inserts one document and prints the count 1, and returns \<open>None\<close>, not 1.
\<close>

theorem import_return_counterexample:
  "docs (snd (importar_csv_para_mongodb empty_world (Table [row1]) ''products.csv'' 5000))
     = [\<lparr>oid = 0, doc = doc_of_row row1\<rparr>]
   \<and> out (snd (importar_csv_para_mongodb empty_world (Table [row1]) ''products.csv'' 5000))
     = [OfImport (CsvLoaded ''products.csv'' 1), OfImport (ProcessingAll 1), OfImport (Imported 1)]
   \<and> fst (importar_csv_para_mongodb empty_world (Table [row1]) ''products.csv'' 5000) = Inr None
   \<and> fst (importar_csv_para_mongodb empty_world (Table [row1]) ''products.csv'' 5000) \<noteq> Inr (Some 1)"
  by (simp add: importar_csv_para_mongodb_def Let_def empty_world_def delete_many_def
      insert_many_def server_call_def print_def)

text \<open>
  Claim C3. \<open>importar_csv_para_mongodb\<close> returns \<open>None\<close> whatever it is given. When
  the store does not fail and the rows kept after the limit give at least one document,
  the number \<open>n\<close> of documents inserted is the length of the collection afterwards
  and is what the last printed line reports; the value returned is still \<open>None\<close>.
\<close>

theorem import_returns_none:
  assumes "faults w = []"
    and "documents = map doc_of_row (if int (length df) > n then head n df else df)"
    and "documents \<noteq> []"
  shows "fst (importar_csv_para_mongodb w (Table df) p n) = Inr None
       \<and> length (docs (snd (importar_csv_para_mongodb w (Table df) p n))) = length documents
       \<and> last (out (snd (importar_csv_para_mongodb w (Table df) p n)))
           = OfImport (Imported (length documents))
       \<and> fst (importar_csv_para_mongodb v src q k) = Inr None"
  using importar_quiet [OF assms] by (simp add: importar_returns_None)

text \<open>The theorem at the import of one row into the empty collection.\<close>

theorem import_returns_none_witness:
  "faults empty_world = []
   \<and> map doc_of_row [row1] \<noteq> []
   \<and> fst (importar_csv_para_mongodb empty_world (Table [row1]) ''products.csv'' 5000) = Inr None
   \<and> length (docs (snd (importar_csv_para_mongodb empty_world (Table [row1]) ''products.csv'' 5000))) = 1
   \<and> last (out (snd (importar_csv_para_mongodb empty_world (Table [row1]) ''products.csv'' 5000)))
       = OfImport (Imported 1)"
proof -
  have f: "faults empty_world = []" by (simp add: empty_world_def)
  show ?thesis
    using import_returns_none [OF f refl, of 5000 "[row1]" "''products.csv''"] f by simp
qed

text \<open>
  What the import does to the documents already there. With a limit of 0 and a source of
  two rows, \<open>head\<close> keeps no row, the list of documents is empty and the
  \<open>if documents:\<close> guard skips \<open>delete_many\<close>: the collection is left as it was.
  The same holds when the file does not exist.
\<close>

theorem import_keeps_counterexample:
  "int (length [row1, row2]) > 0
   \<and> docs (snd (importar_csv_para_mongodb one_world (Table [row1, row2]) ''products.csv'' 0))
       = docs one_world
   \<and> docs one_world = [\<lparr>oid = 0, doc = doc_of_row row1\<rparr>]
   \<and> docs (snd (importar_csv_para_mongodb one_world NoFile ''products.csv'' 5000)) = docs one_world"
  by (simp add: importar_csv_para_mongodb_def Let_def head_def one_world_def print_def)

lemma kept_empty:
  "((if int (length df) > n then head n df else df) = [])
     = (df = [] \<or> n = 0 \<or> (n < 0 \<and> int (length df) \<le> - n))"
  by (auto simp: head_def)

text \<open>
  Claim C1. The import discards the documents already there exactly when it has at least
  one document to insert. Let \<open>kept\<close> be the rows left by the limit. With a store that
  does not fail and a collection whose identifiers are all below the next one to be
  assigned: if \<open>kept\<close> is not empty, the collection afterwards holds the documents made
  from these rows and none of the stored documents that were there before; if \<open>kept\<close> is
  empty, the collection is unchanged. No row is kept exactly when the source has no rows,
  or the limit is 0, or the limit is negative and its absolute value is at least the number
  of rows. When \<open>1 \<le> limit < number of rows\<close>, exactly \<open>limit\<close> documents are there
  afterwards, made from the first \<open>limit\<close> rows, and none of the former ones; when the
  limit is negative and its absolute value is below the number of rows, the documents are
  made from all rows but the last \<open>|limit|\<close>. When the file does not exist or cannot be
  read, the collection is unchanged, whatever the store does.
\<close>

theorem import_replaces:
  assumes "kept = (if int (length df) > n then head n df else df)"
    and "w' = snd (importar_csv_para_mongodb w (Table df) p n)"
  shows "(faults w = [] \<and> list_all (\<lambda>d. oid d < next_oid w) (docs w) \<longrightarrow>
            (kept \<noteq> [] \<longrightarrow> map doc (docs w') = map doc_of_row kept
                              \<and> set (docs w') \<inter> set (docs w) = {})
          \<and> (kept = [] \<longrightarrow> docs w' = docs w)
          \<and> (1 \<le> n \<and> n < int (length df) \<longrightarrow>
                length (docs w') = nat n \<and> map doc (docs w') = map doc_of_row (take (nat n) df)
                \<and> set (docs w') \<inter> set (docs w) = {})
          \<and> (n < 0 \<and> - n < int (length df) \<longrightarrow>
                length (docs w') = length df - nat (- n)
                \<and> map doc (docs w') = map doc_of_row (take (length df - nat (- n)) df)
                \<and> set (docs w') \<inter> set (docs w) = {}))
       \<and> (kept = [] \<longleftrightarrow> df = [] \<or> n = 0 \<or> (n < 0 \<and> int (length df) \<le> - n))
       \<and> docs (snd (importar_csv_para_mongodb w NoFile p n)) = docs w
       \<and> docs (snd (importar_csv_para_mongodb w Unreadable p n)) = docs w"
proof -
  have quiet: "(kept \<noteq> [] \<longrightarrow> map doc (docs w') = map doc_of_row kept
                              \<and> set (docs w') \<inter> set (docs w) = {})
          \<and> (kept = [] \<longrightarrow> docs w' = docs w)
          \<and> (1 \<le> n \<and> n < int (length df) \<longrightarrow>
                length (docs w') = nat n \<and> map doc (docs w') = map doc_of_row (take (nat n) df)
                \<and> set (docs w') \<inter> set (docs w) = {})
          \<and> (n < 0 \<and> - n < int (length df) \<longrightarrow>
                length (docs w') = length df - nat (- n)
                \<and> map doc (docs w') = map doc_of_row (take (length df - nat (- n)) df)
                \<and> set (docs w') \<inter> set (docs w) = {})"
    if f: "faults w = []" and lt: "list_all (\<lambda>d. oid d < next_oid w) (docs w)"
  proof -
    have d0: "map doc_of_row kept = map doc_of_row (if int (length df) > n then head n df else df)"
      unfolding assms(1) ..
    have ne: "docs w' = with_ids (next_oid w) (map doc_of_row kept)" if "kept \<noteq> []"
    proof -
      from that have "map doc_of_row kept \<noteq> []" by simp
      from importar_quiet(1) [OF f d0 this] show ?thesis unfolding assms(2) .
    qed
    have repl: "map doc (docs w') = map doc_of_row kept \<and> set (docs w') \<inter> set (docs w) = {}"
      if "kept \<noteq> []"
      unfolding ne [OF that] using fresh_disjoint [OF lt] by simp
    have emp: "docs w' = docs w" if "kept = []"
    proof -
      from that have "map doc_of_row (if int (length df) > n then head n df else df) = []"
        unfolding assms(1) by simp
      then show ?thesis unfolding assms(2) by (rule importar_no_rows)
    qed
    have pos: "length (docs w') = nat n \<and> map doc (docs w') = map doc_of_row (take (nat n) df)
                \<and> set (docs w') \<inter> set (docs w) = {}"
      if n: "1 \<le> n \<and> n < int (length df)"
    proof -
      from n have k: "kept = take (nat n) df" unfolding assms(1) by (simp add: head_def)
      from n have l: "nat n \<le> length df" "0 < nat n" by linarith+
      then have "kept \<noteq> []" unfolding k by auto
      from repl [OF this] ne [OF this] l show ?thesis unfolding k by simp
    qed
    have neg: "length (docs w') = length df - nat (- n)
                \<and> map doc (docs w') = map doc_of_row (take (length df - nat (- n)) df)
                \<and> set (docs w') \<inter> set (docs w) = {}"
      if n: "n < 0 \<and> - n < int (length df)"
    proof -
      from n have k: "kept = take (length df - nat (- n)) df"
        unfolding assms(1) by (simp add: head_def)
      from n have l: "0 < length df - nat (- n)" by linarith
      then have "kept \<noteq> []" unfolding k by auto
      from repl [OF this] ne [OF this] show ?thesis unfolding k by simp
    qed
    from repl emp pos neg show ?thesis by blast
  qed
  moreover have "kept = [] \<longleftrightarrow> df = [] \<or> n = 0 \<or> (n < 0 \<and> int (length df) \<le> - n)"
    unfolding assms(1) by (rule kept_empty)
  moreover have "docs (snd (importar_csv_para_mongodb w NoFile p n)) = docs w"
    "docs (snd (importar_csv_para_mongodb w Unreadable p n)) = docs w"
    by (rule importar_no_table)+
  ultimately show ?thesis by blast
qed

text \<open>
  The theorem at a collection of one document and a source of two rows, with the limits
  1, 0 and -1, and at a file that does not exist.
\<close>

theorem import_replaces_witness:
  "faults one_world = []
   \<and> list_all (\<lambda>d. oid d < next_oid one_world) (docs one_world)
   \<and> (1::int) \<le> 1 \<and> (1::int) < int (length [row1, row2])
   \<and> head 1 [row1, row2] \<noteq> []
   \<and> length (docs (snd (importar_csv_para_mongodb one_world (Table [row1, row2]) ''products.csv'' 1))) = 1
   \<and> map doc (docs (snd (importar_csv_para_mongodb one_world (Table [row1, row2]) ''products.csv'' 1)))
       = [doc_of_row row1]
   \<and> set (docs (snd (importar_csv_para_mongodb one_world (Table [row1, row2]) ''products.csv'' 1)))
       \<inter> set (docs one_world) = {}
   \<and> head 0 [row1, row2] = []
   \<and> docs (snd (importar_csv_para_mongodb one_world (Table [row1, row2]) ''products.csv'' 0))
       = docs one_world
   \<and> (- 1 :: int) < 0 \<and> - (- 1) < int (length [row1, row2])
   \<and> map doc (docs (snd (importar_csv_para_mongodb one_world (Table [row1, row2]) ''products.csv'' (- 1))))
       = [doc_of_row row1]
   \<and> set (docs (snd (importar_csv_para_mongodb one_world (Table [row1, row2]) ''products.csv'' (- 1))))
       \<inter> set (docs one_world) = {}
   \<and> docs (snd (importar_csv_para_mongodb one_world NoFile ''products.csv'' 1)) = docs one_world"
proof -
  have f: "faults one_world = []" by (simp add: one_world_def)
  have a: "list_all (\<lambda>d. oid d < next_oid one_world) (docs one_world)"
    by (simp add: one_world_def)
  have h: "head 1 [row1, row2] = [row1]" "head 0 [row1, row2] = []"
    "head (- 1) [row1, row2] = [row1]" by (simp_all add: head_def)
  show ?thesis
    using import_replaces [OF refl refl, of one_world 1 "[row1, row2]" "''products.csv''"]
      import_replaces [OF refl refl, of one_world 0 "[row1, row2]" "''products.csv''"]
      import_replaces [OF refl refl, of one_world "- 1" "[row1, row2]" "''products.csv''"] f a
    by (simp add: h)
qed

section \<open>Editing an asset\<close>

lemma find_None_list_ex: "find P ds = None \<Longrightarrow> \<not> list_ex P ds"
  by (simp add: find_None_iff list_ex_iff)

lemma find_Some_list_ex: "find P ds = Some d \<Longrightarrow> list_ex P ds"
  by (auto simp: find_Some_iff list_ex_iff)

lemma update_first_absent:
  "find (\<lambda>x. asset_id (doc x) = aid) ds = None \<Longrightarrow> update_first aid f ds = ds"
  by (induction ds) (simp_all split: if_splits)

lemma update_first_present:
  "find (\<lambda>x. asset_id (doc x) = aid) ds = Some d \<Longrightarrow>
   \<exists>pre post. ds = pre @ d # post \<and> list_all (\<lambda>x. asset_id (doc x) \<noteq> aid) pre
     \<and> update_first aid f ds = pre @ d\<lparr>doc := f (doc d)\<rparr> # post"
proof (induction ds)
  case Nil
  then show ?case by simp
next
  case (Cons a ds)
  show ?case
  proof (cases "asset_id (doc a) = aid")
    case True
    with Cons.prems have "a = d" by simp
    with True have "a # ds = [] @ d # ds \<and> list_all (\<lambda>x. asset_id (doc x) \<noteq> aid) []
        \<and> update_first aid f (a # ds) = [] @ d\<lparr>doc := f (doc d)\<rparr> # ds" by simp
    then show ?thesis by blast
  next
    case False
    with Cons.prems have "find (\<lambda>x. asset_id (doc x) = aid) ds = Some d" by simp
    from Cons.IH [OF this] obtain pre post where
      p: "ds = pre @ d # post" "list_all (\<lambda>x. asset_id (doc x) \<noteq> aid) pre"
         "update_first aid f ds = pre @ d\<lparr>doc := f (doc d)\<rparr> # post" by blast
    with False have "a # ds = (a # pre) @ d # post
        \<and> list_all (\<lambda>x. asset_id (doc x) \<noteq> aid) (a # pre)
        \<and> update_first aid f (a # ds) = (a # pre) @ d\<lparr>doc := f (doc d)\<rparr> # post" by simp
    then show ?thesis by blast
  qed
qed

lemma editar_both:
  assumes "faults w = []" and "nl \<noteq> []" and "ns \<noteq> []"
  shows "editar_documento w aid now (Some nl) (Some ns) =
     (Inr (),
      w\<lparr>docs := update_first aid
           (apply_update \<lparr>set_location = Some nl, set_status = Some ns\<rparr>
              \<lparr>date = now, type = Movimentacao,
               from_location = Some (get_location (find (\<lambda>x. asset_id (doc x) = aid) (docs w))),
               to_location = Some nl, responsible = Usuario_App\<rparr>) (docs w),
        out := out w @
          [OfEdit (UpdatingLocation aid (get_location (find (\<lambda>x. asset_id (doc x) = aid) (docs w))) nl),
           OfEdit (UpdatingStatus aid (get_status (find (\<lambda>x. asset_id (doc x) = aid) (docs w))) ns),
           OfEdit (if list_ex (\<lambda>d. asset_id (doc d) = aid) (docs w) then EditedOk aid
                   else NotFoundOrNothingToEdit aid)]\<rparr>)"
  using assms
  by (simp add: editar_documento_def edit_location_def edit_status_def find_one_quiet
      update_one_quiet Let_def truthy_def print_def)

lemma editar_status_only:
  assumes "faults w = []" and "\<not> truthy new_location" and "ns \<noteq> []"
  shows "editar_documento w aid now new_location (Some ns) =
     (Inr (),
      w\<lparr>docs := update_first aid
           (apply_update \<lparr>set_location = None, set_status = Some ns\<rparr>
              \<lparr>date = now,
               type = Atualizacao_de_Status
                      @ get_status (find (\<lambda>x. asset_id (doc x) = aid) (docs w)) @ '' para '' @ ns,
               from_location = Some (get_location (find (\<lambda>x. asset_id (doc x) = aid) (docs w))),
               to_location = Some (get_location (find (\<lambda>x. asset_id (doc x) = aid) (docs w))),
               responsible = Usuario_App\<rparr>) (docs w),
        out := out w @
          [OfEdit (UpdatingStatus aid (get_status (find (\<lambda>x. asset_id (doc x) = aid) (docs w))) ns),
           OfEdit (if list_ex (\<lambda>d. asset_id (doc d) = aid) (docs w) then EditedOk aid
                   else NotFoundOrNothingToEdit aid)]\<rparr>)"
  using assms
  by (auto simp: editar_documento_def edit_location_def edit_status_def find_one_quiet
      update_one_quiet Let_def truthy_def print_def split: option.splits)

lemma editar_docs_any:
  "docs (snd (editar_documento w aid now new_location new_status)) = docs w
   \<or> (\<exists>f. docs (snd (editar_documento w aid now new_location new_status))
            = update_first aid f (docs w))"
  by (auto simp: editar_documento_def edit_location_def edit_status_def find_one_def
      update_one_def server_call_def Let_def split: option.split list.split bool.split)

lemma editar_absent_quiet:
  assumes "faults w = []" and "find (\<lambda>x. asset_id (doc x) = aid) (docs w) = None"
  shows "fst (editar_documento w aid now new_location new_status) = Inr ()"
    and "last (out (snd (editar_documento w aid now new_location new_status)))
           = OfEdit (NotFoundOrNothingToEdit aid)"
  using assms(1) find_None_list_ex [OF assms(2)]
  by (auto simp: editar_documento_def edit_location_def edit_status_def find_one_quiet
      update_one_quiet Let_def split: option.split)

text \<open>
  Claim C6. When no document of the collection has the given \<open>asset_id\<close>,
  \<open>editar_documento\<close> leaves every document of the collection as it was, whatever its
  other arguments are and whether the store fails or not: nothing is modified and no
  movement entry is appended. When the store does not fail the function returns normally
  and the last line it prints is the one that reports the asset as not found.
\<close>

theorem edit_absent:
  assumes "find (\<lambda>x. asset_id (doc x) = aid) (docs w) = None"
  shows "docs (snd (editar_documento w aid now new_location new_status)) = docs w
       \<and> (faults w = [] \<longrightarrow>
            fst (editar_documento w aid now new_location new_status) = Inr ()
            \<and> last (out (snd (editar_documento w aid now new_location new_status)))
                = OfEdit (NotFoundOrNothingToEdit aid))"
proof (intro conjI impI)
  show "docs (snd (editar_documento w aid now new_location new_status)) = docs w"
    using editar_docs_any [of w aid now new_location new_status]
    by (auto simp: update_first_absent [OF assms])
next
  assume f: "faults w = []"
  show "fst (editar_documento w aid now new_location new_status) = Inr ()"
    by (rule editar_absent_quiet(1) [OF f assms])
  show "last (out (snd (editar_documento w aid now new_location new_status)))
          = OfEdit (NotFoundOrNothingToEdit aid)"
    by (rule editar_absent_quiet(2) [OF f assms])
qed

text \<open>The theorem at the collection of one document, which has no asset \<open>2\<close>.\<close>

theorem edit_absent_witness:
  "find (\<lambda>x. asset_id (doc x) = ''2'') (docs one_world) = None
   \<and> faults one_world = []
   \<and> docs (snd (editar_documento one_world ''2'' ''2024-06-01 09:00:00'' (Some ''Reitoria'')
        (Some ''Desativado''))) = docs one_world
   \<and> fst (editar_documento one_world ''2'' ''2024-06-01 09:00:00'' (Some ''Reitoria'')
        (Some ''Desativado'')) = Inr ()
   \<and> last (out (snd (editar_documento one_world ''2'' ''2024-06-01 09:00:00'' (Some ''Reitoria'')
        (Some ''Desativado'')))) = OfEdit (NotFoundOrNothingToEdit ''2'')"
proof -
  have a: "find (\<lambda>x. asset_id (doc x) = ''2'') (docs one_world) = None"
    by (simp add: one_world_def doc_of_row_def row1_def get_str_def)
  have f: "faults one_world = []" by (simp add: one_world_def)
  show ?thesis
    using edit_absent [OF a, of "''2024-06-01 09:00:00''" "Some ''Reitoria''" "Some ''Desativado''"] a f
    by simp
qed

text \<open>
  Claim C5. When \<open>editar_documento\<close> is called with a new location and a new status,
  both non-empty, on an asset that exists and has a location, and the store does not fail,
  the first document with that \<open>asset_id\<close> is the only one that changes: its location
  and status are set to the new values and exactly one entry is appended to its
  \<open>movement_history\<close>. The type of the entry is \<open>Movimentacao\<close>, its
  \<open>from_location\<close> is the location the asset had and its \<open>to_location\<close> is the new
  one; neither the old nor the new status occurs in the entry.
\<close>

theorem edit_both_fields:
  assumes "faults w = []"
    and "find (\<lambda>x. asset_id (doc x) = aid) (docs w) = Some d"
    and "location (doc d) = Some old"
    and "nl \<noteq> []" and "ns \<noteq> []"
  shows "\<exists>pre post. docs w = pre @ d # post
       \<and> docs (snd (editar_documento w aid now (Some nl) (Some ns)))
           = pre @ d\<lparr>doc := (doc d)\<lparr>location := Some nl, status := Some ns,
                        movement_history := movement_history (doc d) @
                          [\<lparr>date = now, type = Movimentacao, from_location = Some old,
                            to_location = Some nl, responsible = Usuario_App\<rparr>]\<rparr>\<rparr> # post"
proof -
  let ?e = "\<lparr>date = now, type = Movimentacao, from_location = Some old,
             to_location = Some nl, responsible = Usuario_App\<rparr>"
  let ?u = "\<lparr>set_location = Some nl, set_status = Some ns\<rparr>"
  have g: "get_location (find (\<lambda>x. asset_id (doc x) = aid) (docs w)) = old"
    using assms(2,3) by (simp add: get_location_def)
  have "docs (snd (editar_documento w aid now (Some nl) (Some ns)))
          = update_first aid (apply_update ?u ?e) (docs w)"
    unfolding editar_both [OF assms(1,4,5)] g by simp
  moreover from update_first_present [OF assms(2), of "apply_update ?u ?e"]
  obtain pre post where "docs w = pre @ d # post"
    "update_first aid (apply_update ?u ?e) (docs w)
       = pre @ d\<lparr>doc := apply_update ?u ?e (doc d)\<rparr> # post" by blast
  ultimately show ?thesis by (auto simp: apply_update_def)
qed

text \<open>The theorem at the collection of one document.\<close>

theorem edit_both_fields_witness:
  "faults one_world = []
   \<and> find (\<lambda>x. asset_id (doc x) = ''1'') (docs one_world) = Some \<lparr>oid = 0, doc = doc_of_row row1\<rparr>
   \<and> location (doc_of_row row1) = Some ''Armazenagem Principal''
   \<and> docs (snd (editar_documento one_world ''1'' ''2024-06-01 09:00:00'' (Some ''Reitoria'')
        (Some ''Desativado'')))
     = [\<lparr>oid = 0, doc = (doc_of_row row1)\<lparr>location := Some ''Reitoria'', status := Some ''Desativado'',
           movement_history := movement_history (doc_of_row row1) @
             [\<lparr>date = ''2024-06-01 09:00:00'', type = Movimentacao,
               from_location = Some ''Armazenagem Principal'',
               to_location = Some ''Reitoria'', responsible = Usuario_App\<rparr>]\<rparr>\<rparr>]"
proof -
  have f: "faults one_world = []" by (simp add: one_world_def)
  have a: "find (\<lambda>x. asset_id (doc x) = ''1'') (docs one_world) = Some \<lparr>oid = 0, doc = doc_of_row row1\<rparr>"
    by (simp add: one_world_def doc_of_row_def row1_def get_str_def)
  have l: "location (doc \<lparr>oid = 0, doc = doc_of_row row1\<rparr>) = Some ''Armazenagem Principal''"
    by (simp add: doc_of_row_def)
  have d: "docs one_world = [\<lparr>oid = 0, doc = doc_of_row row1\<rparr>]" by (simp add: one_world_def)
  from edit_both_fields [OF f a l, of "''Reitoria''" "''Desativado''" "''2024-06-01 09:00:00''"]
  obtain pre post where p: "docs one_world = pre @ \<lparr>oid = 0, doc = doc_of_row row1\<rparr> # post"
    and q: "docs (snd (editar_documento one_world ''1'' ''2024-06-01 09:00:00'' (Some ''Reitoria'')
        (Some ''Desativado'')))
     = pre @ \<lparr>oid = 0, doc = doc_of_row row1\<rparr>\<lparr>doc := (doc \<lparr>oid = 0, doc = doc_of_row row1\<rparr>)
          \<lparr>location := Some ''Reitoria'', status := Some ''Desativado'',
           movement_history := movement_history (doc \<lparr>oid = 0, doc = doc_of_row row1\<rparr>) @
             [\<lparr>date = ''2024-06-01 09:00:00'', type = Movimentacao,
               from_location = Some ''Armazenagem Principal'',
               to_location = Some ''Reitoria'', responsible = Usuario_App\<rparr>]\<rparr>\<rparr> # post"
    by auto
  from p have "pre = [] \<and> post = []" unfolding d by (cases pre) simp_all
  with q f a l show ?thesis by simp
qed

text \<open>
  Claim C7. When \<open>editar_documento\<close> is called with a new status, non-empty, and no new
  location (\<open>None\<close> or the empty string) on an asset that exists and has a location and a
  status, and the store does not fail, the first document with that \<open>asset_id\<close> is the
  only one that changes: its status is set to the new value, its location stays, and
  exactly one entry is appended to its \<open>movement_history\<close>. The \<open>from_location\<close> and
  the \<open>to_location\<close> of the entry are both the location of the asset, and its type is
  the status-change prefix followed by the old status, \<open>para\<close> and the new status.
\<close>

theorem edit_status_alone:
  assumes "faults w = []"
    and "find (\<lambda>x. asset_id (doc x) = aid) (docs w) = Some d"
    and "location (doc d) = Some loc" and "status (doc d) = Some old"
    and "\<not> truthy new_location" and "ns \<noteq> []"
  shows "\<exists>pre post. docs w = pre @ d # post
       \<and> docs (snd (editar_documento w aid now new_location (Some ns)))
           = pre @ d\<lparr>doc := (doc d)\<lparr>status := Some ns,
                        movement_history := movement_history (doc d) @
                          [\<lparr>date = now, type = Atualizacao_de_Status @ old @ '' para '' @ ns,
                            from_location = Some loc, to_location = Some loc,
                            responsible = Usuario_App\<rparr>]\<rparr>\<rparr> # post"
proof -
  let ?e = "\<lparr>date = now, type = Atualizacao_de_Status @ old @ '' para '' @ ns,
             from_location = Some loc, to_location = Some loc, responsible = Usuario_App\<rparr>"
  let ?u = "\<lparr>set_location = None, set_status = Some ns\<rparr>"
  have g: "get_location (find (\<lambda>x. asset_id (doc x) = aid) (docs w)) = loc"
    "get_status (find (\<lambda>x. asset_id (doc x) = aid) (docs w)) = old"
    using assms(2,3,4) by (simp_all add: get_location_def get_status_def)
  have "docs (snd (editar_documento w aid now new_location (Some ns)))
          = update_first aid (apply_update ?u ?e) (docs w)"
    unfolding editar_status_only [OF assms(1,5,6)] g by simp
  moreover from update_first_present [OF assms(2), of "apply_update ?u ?e"]
  obtain pre post where "docs w = pre @ d # post"
    "update_first aid (apply_update ?u ?e) (docs w)
       = pre @ d\<lparr>doc := apply_update ?u ?e (doc d)\<rparr> # post" by blast
  ultimately show ?thesis by (auto simp: apply_update_def)
qed

text \<open>The theorem at the collection of one document.\<close>

theorem edit_status_alone_witness:
  "faults one_world = []
   \<and> find (\<lambda>x. asset_id (doc x) = ''1'') (docs one_world) = Some \<lparr>oid = 0, doc = doc_of_row row1\<rparr>
   \<and> location (doc_of_row row1) = Some ''Armazenagem Principal''
   \<and> status (doc_of_row row1) = Some ''Em Uso''
   \<and> \<not> truthy None
   \<and> docs (snd (editar_documento one_world ''1'' ''2024-06-01 09:00:00'' None (Some ''Desativado'')))
     = [\<lparr>oid = 0, doc = (doc_of_row row1)\<lparr>status := Some ''Desativado'',
           movement_history := movement_history (doc_of_row row1) @
             [\<lparr>date = ''2024-06-01 09:00:00'',
               type = Atualizacao_de_Status @ ''Em Uso para Desativado'',
               from_location = Some ''Armazenagem Principal'',
               to_location = Some ''Armazenagem Principal'', responsible = Usuario_App\<rparr>]\<rparr>\<rparr>]"
proof -
  have f: "faults one_world = []" by (simp add: one_world_def)
  have a: "find (\<lambda>x. asset_id (doc x) = ''1'') (docs one_world) = Some \<lparr>oid = 0, doc = doc_of_row row1\<rparr>"
    by (simp add: one_world_def doc_of_row_def row1_def get_str_def)
  have l: "location (doc \<lparr>oid = 0, doc = doc_of_row row1\<rparr>) = Some ''Armazenagem Principal''"
    by (simp add: doc_of_row_def)
  have s: "status (doc \<lparr>oid = 0, doc = doc_of_row row1\<rparr>) = Some ''Em Uso''"
    by (simp add: doc_of_row_def)
  have t: "\<not> truthy None" by (simp add: truthy_def)
  have d: "docs one_world = [\<lparr>oid = 0, doc = doc_of_row row1\<rparr>]" by (simp add: one_world_def)
  from edit_status_alone [OF f a l s t, of "''Desativado''" "''2024-06-01 09:00:00''"]
  obtain pre post where p: "docs one_world = pre @ \<lparr>oid = 0, doc = doc_of_row row1\<rparr> # post"
    and q: "docs (snd (editar_documento one_world ''1'' ''2024-06-01 09:00:00'' None (Some ''Desativado'')))
     = pre @ \<lparr>oid = 0, doc = doc_of_row row1\<rparr>\<lparr>doc := (doc \<lparr>oid = 0, doc = doc_of_row row1\<rparr>)
          \<lparr>status := Some ''Desativado'',
           movement_history := movement_history (doc \<lparr>oid = 0, doc = doc_of_row row1\<rparr>) @
             [\<lparr>date = ''2024-06-01 09:00:00'',
               type = Atualizacao_de_Status @ ''Em Uso'' @ '' para '' @ ''Desativado'',
               from_location = Some ''Armazenagem Principal'',
               to_location = Some ''Armazenagem Principal'', responsible = Usuario_App\<rparr>]\<rparr>\<rparr> # post"
    by auto
  from p have "pre = [] \<and> post = []" unfolding d by (cases pre) simp_all
  with q f a l s t show ?thesis by simp
qed

section \<open>Counting by location\<close>

lemma count_list_map: "count_list (map g xs) k = length (filter (\<lambda>x. g x = k) xs)"
  by (induction xs) simp_all

lemma map_fst_group_count: "map fst (group_count ks) = remdups ks"
  by (simp add: group_count_def comp_def)

lemma snd_group_count: "r \<in> set (group_count ks) \<Longrightarrow> snd r = count_list ks (fst r)"
  by (auto simp: group_count_def)

lemma sort_count_desc_sorted: "sorted_wrt (\<lambda>c c'. c' \<le> c) (map snd (sort_count_desc rs))"
proof -
  have "sorted (map (\<lambda>r. - int (snd r)) (sort_count_desc rs))"
    unfolding sort_count_desc_def by (rule sorted_sort_key)
  then have "sorted_wrt (\<lambda>r r'. - int (snd r) \<le> - int (snd r')) (sort_count_desc rs)"
    by (simp add: sorted_map)
  then have "sorted_wrt (\<lambda>r r'. snd r' \<le> snd r) (sort_count_desc rs)" by simp
  then show ?thesis by (simp add: sorted_wrt_map)
qed

lemma set_sort_count_desc: "set (sort_count_desc rs) = set rs"
  by (simp add: sort_count_desc_def)

lemma distinct_keys_sort_count_desc:
  "distinct (map fst (sort_count_desc rs)) = distinct (map fst rs)"
  by (simp add: distinct_map sort_count_desc_def)

lemma contar_quiet:
  assumes "faults w = []"
  shows "fst (contar_bens_por_localizacao w) = Inr (sort_count_desc (group_by_location (docs w)))"
  using assms
  by (simp add: contar_bens_por_localizacao_def aggregate_count_by_location_def
      server_call_quiet)

lemma filter_partition:
  assumes "\<And>x. \<not> (P x \<and> Q x)"
  shows "length (filter (\<lambda>x. P x \<or> Q x) xs) = length (filter P xs) + length (filter Q xs)"
  using assms by (induction xs) auto

lemma two_keys:
  assumes "distinct ks" and "set ks = {a, b}" and "a \<noteq> b"
  shows "ks = [a, b] \<or> ks = [b, a]"
proof -
  have "length ks = 2" using distinct_card [OF assms(1)] assms(2,3) by simp
  then obtain x y where ks: "ks = [x, y]"
    by (cases ks; cases "tl ks"; cases "tl (tl ks)") auto
  with assms(2) have "{x, y} = {a, b}" by simp
  then have "(x = a \<and> y = b) \<or> (x = b \<and> y = a)" by (auto simp: doubleton_eq_iff)
  with ks show ?thesis by auto
qed

lemma three_and_one:
  fixes g :: "'a \<Rightarrow> 'k"
  assumes "length xs = 4"
    and "length (filter (\<lambda>x. g x = a) xs) = 3"
    and "length (filter (\<lambda>x. g x = b) xs) = 1"
  shows "a \<noteq> b" and "set (map g xs) = {a, b}"
proof -
  show ab: "a \<noteq> b" using assms(2,3) by auto
  have "length (filter (\<lambda>x. g x = a \<or> g x = b) xs) = length xs"
    using filter_partition [of "\<lambda>x. g x = a" "\<lambda>x. g x = b" xs] ab assms by simp
  then have all: "\<And>x. x \<in> set xs \<Longrightarrow> g x = a \<or> g x = b"
    using length_filter_less [of _ xs "\<lambda>x. g x = a \<or> g x = b"] by fastforce
  have "filter (\<lambda>x. g x = a) xs \<noteq> []" using assms(2) by auto
  then obtain x where "x \<in> set xs" "g x = a"
    by (metis (mono_tags, lifting) filter_False)
  then have a: "a \<in> set (map g xs)" by auto
  have "filter (\<lambda>x. g x = b) xs \<noteq> []" using assms(3) by auto
  then obtain y where "y \<in> set xs" "g y = b"
    by (metis (mono_tags, lifting) filter_False)
  then have b: "b \<in> set (map g xs)" by auto
  from all a b show "set (map g xs) = {a, b}" by auto
qed

text \<open>
  Claim C9. With a store that does not fail, \<open>contar_bens_por_localizacao\<close> returns a
  list of pairs (location, count) that is in descending order of the counts, has one pair
  for each location that occurs in the collection and no other, and gives with each
  location the number of documents of the collection that have it. In particular, over a
  collection of four documents of which three are at \<open>A\<close> and one is at \<open>B\<close>, in
  whatever order they are stored, it returns exactly \<open>(A, 3), (B, 1)\<close> in this order.
\<close>

theorem count_by_location:
  assumes "faults w = []"
  shows "\<exists>rs. fst (contar_bens_por_localizacao w) = Inr rs
       \<and> sorted_wrt (\<lambda>c c'. c' \<le> c) (map snd rs)
       \<and> distinct (map fst rs)
       \<and> set (map fst rs) = set (map (\<lambda>d. location (doc d)) (docs w))
       \<and> map snd rs
           = map (\<lambda>l. length (filter (\<lambda>d. location (doc d) = l) (docs w))) (map fst rs)
       \<and> (length (docs w) = 4
            \<and> length (filter (\<lambda>d. location (doc d) = Some A) (docs w)) = 3
            \<and> length (filter (\<lambda>d. location (doc d) = Some B) (docs w)) = 1
            \<longrightarrow> rs = [(Some A, 3), (Some B, 1)])"
proof -
  define ks where "ks = map (\<lambda>d. location (doc d)) (docs w)"
  define rs where "rs = sort_count_desc (group_by_location (docs w))"
  let ?cnt = "\<lambda>l. length (filter (\<lambda>d. location (doc d) = l) (docs w))"
  have g: "group_by_location (docs w) = group_count ks"
    by (simp add: group_by_location_def ks_def)
  have r: "fst (contar_bens_por_localizacao w) = Inr rs"
    unfolding rs_def by (rule contar_quiet [OF assms])
  have s: "sorted_wrt (\<lambda>c c'. c' \<le> c) (map snd rs)"
    unfolding rs_def by (rule sort_count_desc_sorted)
  have d: "distinct (map fst rs)"
    unfolding rs_def g by (simp add: distinct_keys_sort_count_desc map_fst_group_count)
  have "set (map fst rs) = fst ` set (group_count ks)"
    unfolding rs_def g by (simp add: set_sort_count_desc)
  also have "\<dots> = set (map fst (group_count ks))" by simp
  also have "\<dots> = set ks" unfolding map_fst_group_count by simp
  finally have k: "set (map fst rs) = set ks" .
  have "snd x = ?cnt (fst x)" if "x \<in> set rs" for x
  proof -
    from that have "x \<in> set (group_count ks)" unfolding rs_def g by (simp add: set_sort_count_desc)
    then have "snd x = count_list ks (fst x)" by (rule snd_group_count)
    then show ?thesis unfolding ks_def by (simp add: count_list_map)
  qed
  then have c: "map snd rs = map ?cnt (map fst rs)" by simp
  have e: "rs = [(Some A, 3), (Some B, 1)]"
    if h: "length (docs w) = 4 \<and> ?cnt (Some A) = 3 \<and> ?cnt (Some B) = 1"
  proof -
    from h have ab: "Some A \<noteq> Some B"
      by (intro three_and_one(1) [of "docs w" "\<lambda>d. location (doc d)"]) simp_all
    from h have "set ks = {Some A, Some B}"
      unfolding ks_def by (intro three_and_one(2)) simp_all
    with k have "set (map fst rs) = {Some A, Some B}" by simp
    from two_keys [OF d this ab]
    have "map fst rs = [Some A, Some B] \<or> map fst rs = [Some B, Some A]" .
    then show ?thesis
    proof
      assume m: "map fst rs = [Some A, Some B]"
      with c h have "map snd rs = [3, 1]" by simp
      with m have "zip (map fst rs) (map snd rs) = [(Some A, 3), (Some B, 1)]" by simp
      then show ?thesis by (simp add: zip_map_fst_snd)
    next
      assume m: "map fst rs = [Some B, Some A]"
      with c h have "map snd rs = [1, 3]" by simp
      with s show ?thesis by simp
    qed
  qed
  from r s d k c e show ?thesis unfolding ks_def by blast
qed

text \<open>
  The theorem at a collection of four documents, the second at \<open>Sala\<close> and the others
  at \<open>Lab\<close>.
\<close>

theorem count_by_location_witness:
  "faults four_world = []
   \<and> length (docs four_world) = 4
   \<and> length (filter (\<lambda>d. location (doc d) = Some ''Lab'') (docs four_world)) = 3
   \<and> length (filter (\<lambda>d. location (doc d) = Some ''Sala'') (docs four_world)) = 1
   \<and> fst (contar_bens_por_localizacao four_world) = Inr [(Some ''Lab'', 3), (Some ''Sala'', 1)]"
proof -
  have f: "faults four_world = []" by (simp add: four_world_def)
  have h: "length (docs four_world) = 4"
    "length (filter (\<lambda>d. location (doc d) = Some ''Lab'') (docs four_world)) = 3"
    "length (filter (\<lambda>d. location (doc d) = Some ''Sala'') (docs four_world)) = 1"
    by (simp_all add: four_world_def)
  from count_by_location [OF f, of "''Lab''" "''Sala''"] h
  have "fst (contar_bens_por_localizacao four_world) = Inr [(Some ''Lab'', 3), (Some ''Sala'', 1)]"
    by auto
  with f h show ?thesis by simp
qed

section \<open>The movement history\<close>

subsection \<open>What each operation does to the collection\<close>

lemma server_call_frame:
  "server_call w = (b, w') \<Longrightarrow> docs w' = docs w \<and> next_oid w' = next_oid w"
  by (auto simp: server_call_def split: list.splits)

lemma find_all_frame:
  "find_all P w = (r, w') \<Longrightarrow> docs w' = docs w \<and> next_oid w' = next_oid w"
  by (auto simp: find_all_def split: prod.splits bool.splits dest: server_call_frame)

lemma find_one_frame:
  "find_one aid w = (r, w') \<Longrightarrow> docs w' = docs w \<and> next_oid w' = next_oid w"
  by (auto simp: find_one_def split: prod.splits bool.splits dest: server_call_frame)

lemma count_documents_frame:
  "count_documents w = (r, w') \<Longrightarrow> docs w' = docs w \<and> next_oid w' = next_oid w"
  by (auto simp: count_documents_def split: prod.splits bool.splits dest: server_call_frame)

lemma print_assets_frame:
  "print_assets as w = (r, w') \<Longrightarrow> docs w' = docs w \<and> next_oid w' = next_oid w"
  by (induction as arbitrary: w) (auto split: option.splits)

lemma print_assets_full_frame:
  "print_assets_full as w = (r, w') \<Longrightarrow> docs w' = docs w \<and> next_oid w' = next_oid w"
  by (induction as arbitrary: w) (auto split: option.splits)

lemma find_and_print_full_frame:
  "find_and_print_full q w = (r, w') \<Longrightarrow> docs w' = docs w \<and> next_oid w' = next_oid w"
  by (auto simp: find_and_print_full_def split: prod.splits sum.splits if_splits
      dest!: find_all_frame print_assets_full_frame)

lemma run_FindAll:
  "docs (run FindAll w) = docs w \<and> next_oid (run FindAll w) = next_oid w"
  by (auto simp: buscar_todos_documentos_def split: prod.splits sum.splits
      dest!: find_all_frame)

lemma run_FindByLocation:
  "docs (run (FindByLocation loc) w) = docs w \<and> next_oid (run (FindByLocation loc) w) = next_oid w"
  by (auto simp: buscar_bens_por_localizacao_def split: prod.splits sum.splits
      dest!: find_all_frame print_assets_frame)

lemma run_FindByStatusOrCategory:
  "docs (run (FindByStatusOrCategory st cat) w) = docs w
   \<and> next_oid (run (FindByStatusOrCategory st cat) w) = next_oid w"
proof -
  obtain r w' where e: "buscar_bens_com_status_ou_categoria w st cat = (r, w')"
    by (cases "buscar_bens_com_status_ou_categoria w st cat")
  then have "docs w' = docs w \<and> next_oid w' = next_oid w"
    by (auto simp: buscar_bens_com_status_ou_categoria_def split: if_splits
        dest!: find_and_print_full_frame)
  with e show ?thesis by simp
qed

lemma run_FindMovementHistory:
  "docs (run (FindMovementHistory aid) w) = docs w
   \<and> next_oid (run (FindMovementHistory aid) w) = next_oid w"
  by (auto simp: buscar_historico_de_movimentacao_def split: prod.splits sum.splits option.splits
      dest!: find_one_frame)

lemma run_CountByLocation:
  "docs (run CountByLocation w) = docs w \<and> next_oid (run CountByLocation w) = next_oid w"
  by (auto simp: contar_bens_por_localizacao_def aggregate_count_by_location_def
      split: prod.splits sum.splits bool.splits dest!: server_call_frame)

lemma print_category_status_frame:
  "print_category_status rs w = (r, w') \<Longrightarrow> docs w' = docs w \<and> next_oid w' = next_oid w"
  by (induction rs arbitrary: w) (auto split: option.splits)

lemma aggregate_count_by_category_status_frame:
  "aggregate_count_by_category_status w = (r, w') \<Longrightarrow>
   docs w' = docs w \<and> next_oid w' = next_oid w"
  by (auto simp: aggregate_count_by_category_status_def split: prod.splits bool.splits
      dest!: server_call_frame)

lemma run_CountByCategoryAndStatus:
  "docs (run CountByCategoryAndStatus w) = docs w
   \<and> next_oid (run CountByCategoryAndStatus w) = next_oid w"
  by (auto simp: contar_bens_por_categoria_e_status_def
      split: prod.splits sum.splits dest!: aggregate_count_by_category_status_frame
        print_category_status_frame)

lemma delete_one_frame:
  "delete_one aid w = (r, w') \<Longrightarrow>
   (docs w' = docs w \<or> docs w' = remove_first aid (docs w)) \<and> next_oid w' = next_oid w"
  by (auto simp: delete_one_def split: prod.splits bool.splits dest!: server_call_frame)

lemma run_Delete:
  "(docs (run (Delete aid) w) = docs w \<or> docs (run (Delete aid) w) = remove_first aid (docs w))
   \<and> next_oid (run (Delete aid) w) = next_oid w"
  by (auto simp: excluir_documento_def split: prod.splits sum.splits dest!: delete_one_frame)

lemma update_one_frame:
  "update_one aid u e w = (r, w') \<Longrightarrow>
   (docs w' = docs w \<or> docs w' = update_first aid (apply_update u e) (docs w))
   \<and> next_oid w' = next_oid w"
  by (auto simp: update_one_def split: prod.splits bool.splits dest!: server_call_frame)

lemma edit_location_frame:
  "edit_location aid nl st w = (r, w') \<Longrightarrow> docs w' = docs w \<and> next_oid w' = next_oid w"
  by (auto simp: edit_location_def Let_def split: option.splits if_splits prod.splits sum.splits
      dest!: find_one_frame)

lemma edit_status_frame:
  "edit_status aid nl ns st w = (r, w') \<Longrightarrow> docs w' = docs w \<and> next_oid w' = next_oid w"
  by (auto simp: edit_status_def Let_def split: option.splits if_splits prod.splits sum.splits
      dest!: find_one_frame)

lemma run_Edit:
  "(docs (run (Edit aid now nl ns) w) = docs w
    \<or> (\<exists>u e. docs (run (Edit aid now nl ns) w) = update_first aid (apply_update u e) (docs w)))
   \<and> next_oid (run (Edit aid now nl ns) w) = next_oid w"
proof -
  let ?st = "(\<lparr>set_location = None, set_status = None\<rparr>,
             \<lparr>date = now, type = Movimentacao, from_location = None, to_location = None,
              responsible = Usuario_App\<rparr>)"
  obtain r1 w1 where l: "edit_location aid nl ?st w = (r1, w1)"
    by (cases "edit_location aid nl ?st w")
  note f1 = edit_location_frame [OF l]
  show ?thesis
  proof (cases r1)
    case (Inl e)
    with l f1 show ?thesis by (simp add: editar_documento_def)
  next
    case (Inr st1)
    obtain r2 w2 where s: "edit_status aid nl ns st1 w1 = (r2, w2)"
      by (cases "edit_status aid nl ns st1 w1")
    note f2 = edit_status_frame [OF s]
    show ?thesis
    proof (cases r2)
      case (Inl e)
      with l Inr s f1 f2 show ?thesis by (simp add: editar_documento_def)
    next
      case (Inr st2)
      obtain r3 w3 where u: "update_one aid (fst st2) (snd st2) w2 = (r3, w3)"
        by (cases "update_one aid (fst st2) (snd st2) w2")
      from l \<open>r1 = Inr st1\<close> s Inr u have d: "docs (run (Edit aid now nl ns) w) = docs w3"
        "next_oid (run (Edit aid now nl ns) w) = next_oid w3"
        by (auto simp: editar_documento_def split: sum.splits)
      from update_one_frame [OF u] f1 f2
      have "(docs w3 = docs w \<or> docs w3 = update_first aid (apply_update (fst st2) (snd st2)) (docs w))
            \<and> next_oid w3 = next_oid w" by simp
      with d show ?thesis by auto
    qed
  qed
qed

lemma fresh_new_asset: "fresh_asset (new_asset c i)"
  by (simp add: new_asset_def)

lemma fresh_doc_of_row: "fresh_asset (doc_of_row r)"
  by (simp add: doc_of_row_def)

lemma new_assets_loop_frame:
  "new_assets_loop is acc w = (r, w') \<Longrightarrow> docs w' = docs w \<and> next_oid w' = next_oid w"
  by (induction "is" arbitrary: acc w)
     (auto split: prod.splits sum.splits dest!: count_documents_frame)

lemma new_assets_loop_fresh:
  "new_assets_loop is acc w = (Inr as, w') \<Longrightarrow> list_all fresh_asset acc \<Longrightarrow> list_all fresh_asset as"
proof (induction "is" arbitrary: acc w)
  case Nil
  then show ?case by simp
next
  case (Cons i "is")
  from Cons.prems(1) obtain c w1 where
    "new_assets_loop is (acc @ [new_asset c i]) w1 = (Inr as, w')"
    by (auto split: prod.splits sum.splits)
  moreover have "list_all fresh_asset (acc @ [new_asset c i])"
    using Cons.prems(2) fresh_new_asset [of c i] by simp
  ultimately show ?case by (rule Cons.IH)
qed

lemma insert_many_frame:
  "insert_many ds w = (r, w') \<Longrightarrow>
   (docs w' = docs w \<and> next_oid w' = next_oid w)
   \<or> (docs w' = docs w @ with_ids (next_oid w) ds \<and> next_oid w' = next_oid w + length ds)"
  by (auto simp: insert_many_def split: if_splits prod.splits bool.splits dest!: server_call_frame)

lemma delete_many_frame:
  "delete_many w = (r, w') \<Longrightarrow>
   (docs w' = docs w \<or> docs w' = []) \<and> next_oid w' = next_oid w"
  by (auto simp: delete_many_def split: prod.splits bool.splits dest!: server_call_frame)

lemma run_Insert:
  "\<exists>ds. list_all fresh_asset ds
     \<and> docs (run (Insert n) w) = docs w @ with_ids (next_oid w) ds
     \<and> next_oid (run (Insert n) w) = next_oid w + length ds"
proof -
  obtain r w1 where l: "new_assets_loop [0..<nat n] [] w = (r, w1)"
    by (cases "new_assets_loop [0..<nat n] [] w")
  note f1 = new_assets_loop_frame [OF l]
  show ?thesis
  proof (cases r)
    case (Inl e)
    with l f1 have "list_all fresh_asset []
        \<and> docs (run (Insert n) w) = docs w @ with_ids (next_oid w) []
        \<and> next_oid (run (Insert n) w) = next_oid w + length ([] :: asset list)"
      by (simp add: inserir_documento_extra_def)
    then show ?thesis by blast
  next
    case (Inr as)
    with l have fr: "list_all fresh_asset as" by (auto dest: new_assets_loop_fresh)
    obtain r2 w2 where i: "insert_many as w1 = (r2, w2)" by (cases "insert_many as w1")
    from l Inr i have d: "docs (run (Insert n) w) = docs w2"
      "next_oid (run (Insert n) w) = next_oid w2"
      by (auto simp: inserir_documento_extra_def split: sum.splits)
    from insert_many_frame [OF i] f1
    have "(docs w2 = docs w @ with_ids (next_oid w) [] \<and> next_oid w2 = next_oid w + length ([] :: asset list))
        \<or> (docs w2 = docs w @ with_ids (next_oid w) as \<and> next_oid w2 = next_oid w + length as)"
      by auto
    then show ?thesis
    proof
      assume "docs w2 = docs w @ with_ids (next_oid w) []
              \<and> next_oid w2 = next_oid w + length ([] :: asset list)"
      with d have "list_all fresh_asset []
        \<and> docs (run (Insert n) w) = docs w @ with_ids (next_oid w) []
        \<and> next_oid (run (Insert n) w) = next_oid w + length ([] :: asset list)" by simp
      then show ?thesis by blast
    next
      assume "docs w2 = docs w @ with_ids (next_oid w) as \<and> next_oid w2 = next_oid w + length as"
      with d fr have "list_all fresh_asset as
        \<and> docs (run (Insert n) w) = docs w @ with_ids (next_oid w) as
        \<and> next_oid (run (Insert n) w) = next_oid w + length as" by simp
      then show ?thesis by blast
    qed
  qed
qed

lemma delete_many_ok: "delete_many w = (Inr c, w') \<Longrightarrow> docs w' = []"
  by (auto simp: delete_many_def split: prod.splits bool.splits)

lemma run_Import:
  "\<exists>base ds. (base = docs w \<and> ds = [] \<or> base = []) \<and> list_all fresh_asset ds
     \<and> docs (run (Import src p n) w) = base @ with_ids (next_oid w) ds
     \<and> next_oid (run (Import src p n) w) = next_oid w + length ds"
proof -
  have stay: ?thesis if "docs (run (Import src p n) w) = docs w \<or> docs (run (Import src p n) w) = []"
    and "next_oid (run (Import src p n) w) = next_oid w"
  proof -
    from that have "(docs (run (Import src p n) w) = docs w \<and> ([] :: asset list) = []
          \<or> docs (run (Import src p n) w) = [])
      \<and> list_all fresh_asset []
      \<and> docs (run (Import src p n) w) = docs (run (Import src p n) w) @ with_ids (next_oid w) []
      \<and> next_oid (run (Import src p n) w) = next_oid w + length ([] :: asset list)" by simp
    then show ?thesis by blast
  qed
  show ?thesis
  proof (cases src)
    case NoFile
    then show ?thesis by (intro stay) (simp_all add: importar_csv_para_mongodb_def)
  next
    case Unreadable
    then show ?thesis by (intro stay) (simp_all add: importar_csv_para_mongodb_def)
  next
    case (Table df)
    define documents where
      "documents = map doc_of_row (if int (length df) > n then head n df else df)"
    define w2 where "w2 = (if int (length df) > n
             then print (OfImport (ProcessingFirst n)) (print (OfImport (CsvLoaded p (length df))) w)
             else print (OfImport (ProcessingAll (length df))) (print (OfImport (CsvLoaded p (length df))) w))"
    have w2: "docs w2 = docs w" "next_oid w2 = next_oid w" by (simp_all add: w2_def)
    have fr: "list_all fresh_asset documents"
      unfolding documents_def using fresh_doc_of_row by (simp add: list_all_iff)
    show ?thesis
    proof (cases "documents = []")
      case True
      with Table show ?thesis
        by (intro stay) (simp_all add: importar_csv_para_mongodb_def documents_def Let_def)
    next
      case False
      obtain r3 w3 where dm: "delete_many w2 = (r3, w3)" by (cases "delete_many w2")
      note f3 = delete_many_frame [OF dm]
      show ?thesis
      proof (cases r3)
        case (Inl e)
        with Table False dm have "run (Import src p n) w = print (OfImport (ImportFailed e)) w3"
          by (simp add: importar_csv_para_mongodb_def documents_def w2_def Let_def)
        with f3 w2 show ?thesis by (intro stay) auto
      next
        case (Inr c)
        obtain r4 w4 where im: "insert_many documents w3 = (r4, w4)"
          by (cases "insert_many documents w3")
        from Table False dm Inr im have d: "docs (run (Import src p n) w) = docs w4"
          "next_oid (run (Import src p n) w) = next_oid w4"
          by (auto simp: importar_csv_para_mongodb_def documents_def w2_def Let_def
              split: sum.splits)
        from insert_many_frame [OF im] show ?thesis
        proof
          assume "docs w4 = docs w3 \<and> next_oid w4 = next_oid w3"
          with d f3 w2 show ?thesis by (intro stay) auto
        next
          assume "docs w4 = docs w3 @ with_ids (next_oid w3) documents
                  \<and> next_oid w4 = next_oid w3 + length documents"
          with d f3 w2 delete_many_ok [OF dm [unfolded Inr]]
          have "(docs w3 = docs w \<and> documents = [] \<or> docs w3 = [])
             \<and> list_all fresh_asset documents
             \<and> docs (run (Import src p n) w) = docs w3 @ with_ids (next_oid w) documents
             \<and> next_oid (run (Import src p n) w) = next_oid w + length documents"
            using fr by auto
          then show ?thesis by blast
        qed
      qed
    qed
  qed
qed

subsection \<open>What each change of the collection does to the histories\<close>

lemma find_by_oid:
  "distinct (map oid ds) \<Longrightarrow> d \<in> set ds \<Longrightarrow> find (\<lambda>x. oid x = oid d) ds = Some d"
proof (induction ds)
  case Nil
  then show ?case by simp
next
  case (Cons a ds)
  show ?case
  proof (cases "a = d")
    case True
    then show ?thesis by simp
  next
    case False
    with Cons.prems have m: "d \<in> set ds" by simp
    then have "oid d \<in> set (map oid ds)" by simp
    with Cons.prems(1) have "oid a \<noteq> oid d" by auto
    moreover from Cons.prems(1) m have "find (\<lambda>x. oid x = oid d) ds = Some d"
      by (intro Cons.IH) simp_all
    ultimately show ?thesis by simp
  qed
qed

lemma find_by_oid_none:
  "list_all (\<lambda>d. oid d < k) ds \<Longrightarrow> k \<le> oid d' \<Longrightarrow> find (\<lambda>x. oid x = oid d') ds = None"
  by (auto simp: find_None_iff list_all_iff)

lemma extends_self:
  "distinct (map oid old) \<Longrightarrow> d \<in> set old \<Longrightarrow> extends_history old d"
  by (simp add: find_by_oid)

lemma extends_sub:
  assumes "distinct (map oid old)" and "set new \<subseteq> set old"
  shows "list_all (extends_history old) new"
  unfolding list_all_iff using assms extends_self by blast

lemma in_with_ids:
  assumes "d \<in> set (with_ids k ds)"
  shows "doc d \<in> set ds" and "k \<le> oid d" and "oid d < k + length ds"
proof -
  from assms have "doc d \<in> set (map doc (with_ids k ds))" by (simp del: map_doc_with_ids)
  then show "doc d \<in> set ds" by simp
  from assms have "oid d \<in> set (map oid (with_ids k ds))" by simp
  then show "k \<le> oid d" and "oid d < k + length ds" unfolding map_oid_with_ids by simp_all
qed

lemma append_fresh:
  assumes ok: "list_all history_ok old" and di: "distinct (map oid old)"
    and lt: "list_all (\<lambda>d. oid d < k) old"
    and base: "base = old \<or> base = []" and fr: "list_all fresh_asset ds"
  shows "list_all history_ok (base @ with_ids k ds)"
    and "distinct (map oid (base @ with_ids k ds))"
    and "list_all (\<lambda>d. oid d < k + length ds) (base @ with_ids k ds)"
    and "list_all (extends_history old) (base @ with_ids k ds)"
proof -
  have new: "history_ok d \<and> k \<le> oid d \<and> oid d < k + length ds \<and> fresh_asset (doc d)"
    if "d \<in> set (with_ids k ds)" for d
  proof -
    from in_with_ids [OF that] fr have "fresh_asset (doc d)" "k \<le> oid d" "oid d < k + length ds"
      by (simp_all add: list_all_iff)
    moreover from this(1) have "movement_history (doc d) \<noteq> []" by auto
    ultimately show ?thesis by simp
  qed
  have sub: "set base \<subseteq> set old" using base by auto
  from ok sub new show "list_all history_ok (base @ with_ids k ds)"
    by (auto simp: list_all_iff)
  have "distinct (map oid base)" using base di by auto
  moreover have "distinct (map oid (with_ids k ds))" unfolding map_oid_with_ids by simp
  moreover have "oid ` set base \<inter> oid ` set (with_ids k ds) = {}"
  proof -
    have "oid x \<noteq> oid y" if "x \<in> set base" "y \<in> set (with_ids k ds)" for x y
    proof -
      from that(1) sub lt have "oid x < k" by (auto simp: list_all_iff)
      moreover from new [OF that(2)] have "k \<le> oid y" by simp
      ultimately show ?thesis by simp
    qed
    then show ?thesis by blast
  qed
  ultimately show "distinct (map oid (base @ with_ids k ds))" by simp
  from lt sub new show "list_all (\<lambda>d. oid d < k + length ds) (base @ with_ids k ds)"
    by (fastforce simp: list_all_iff)
  have "extends_history old d" if "d \<in> set (with_ids k ds)" for d
    using new [OF that] find_by_oid_none [OF lt, of d] by simp
  then have "list_all (extends_history old) (with_ids k ds)" unfolding list_all_iff by blast
  moreover have "list_all (extends_history old) base" by (rule extends_sub [OF di sub])
  ultimately show "list_all (extends_history old) (base @ with_ids k ds)"
    by simp
qed

lemma map_oid_update_first: "map oid (update_first aid f ds) = map oid ds"
  by (induction ds) simp_all

lemma update_first_histories:
  assumes ok: "list_all history_ok old" and di: "distinct (map oid old)"
  shows "list_all history_ok (update_first aid (apply_update u e) old)"
    and "list_all (extends_history old) (update_first aid (apply_update u e) old)"
proof -
  let ?new = "update_first aid (apply_update u e) old"
  have "list_all history_ok ?new \<and> list_all (extends_history old) ?new"
  proof (cases "find (\<lambda>x. asset_id (doc x) = aid) old")
    case None
    then have "?new = old" by (rule update_first_absent)
    with ok extends_sub [OF di, of old] show ?thesis by simp
  next
    case (Some d)
    from update_first_present [OF Some, of "apply_update u e"] obtain pre post where
      o: "old = pre @ d # post" and n: "?new = pre @ d\<lparr>doc := apply_update u e (doc d)\<rparr> # post"
      by blast
    let ?d' = "d\<lparr>doc := apply_update u e (doc d)\<rparr>"
    from o have dm: "d \<in> set old" by simp
    have h': "movement_history (doc ?d') = movement_history (doc d) @ [e]"
      by (simp add: apply_update_def)
    from ok dm have "history_ok d" by (simp add: list_all_iff)
    then have k1: "history_ok ?d'" unfolding h' by simp
    have "find (\<lambda>x. oid x = oid ?d') old = Some d" using find_by_oid [OF di dm] by simp
    then have k2: "extends_history old ?d'" unfolding h' by simp
    have "set pre \<subseteq> set old" "set post \<subseteq> set old" using o by auto
    then have k3: "list_all (extends_history old) pre" "list_all (extends_history old) post"
      using extends_sub [OF di] by blast+
    from ok o have k4: "list_all history_ok pre" "list_all history_ok post" by simp_all
    from k1 k2 k3 k4 show ?thesis unfolding n by simp
  qed
  then show "list_all history_ok ?new" and "list_all (extends_history old) ?new" by simp_all
qed

lemma remove_first_shape:
  "remove_first aid ds = ds
   \<or> (\<exists>pre d post. ds = pre @ d # post \<and> asset_id (doc d) = aid
         \<and> remove_first aid ds = pre @ post)"
proof (induction ds)
  case Nil
  then show ?case by simp
next
  case (Cons a ds)
  show ?case
  proof (cases "asset_id (doc a) = aid")
    case True
    then have "a # ds = [] @ a # ds \<and> asset_id (doc a) = aid
        \<and> remove_first aid (a # ds) = [] @ ds" by simp
    then show ?thesis by blast
  next
    case False
    from Cons.IH show ?thesis
    proof
      assume "remove_first aid ds = ds"
      with False show ?thesis by simp
    next
      assume "\<exists>pre d post. ds = pre @ d # post \<and> asset_id (doc d) = aid
                \<and> remove_first aid ds = pre @ post"
      then obtain pre d post where "ds = pre @ d # post" "asset_id (doc d) = aid"
        "remove_first aid ds = pre @ post" by blast
      with False have "a # ds = (a # pre) @ d # post \<and> asset_id (doc d) = aid
          \<and> remove_first aid (a # ds) = (a # pre) @ post" by simp
      then show ?thesis by blast
    qed
  qed
qed

lemma appended_same: "list_all2 appended ds ds"
  by (rule list_all2_refl) simp

lemma appended_update_first: "list_all2 appended ds (update_first aid (apply_update u e) ds)"
  by (induction ds) (simp_all add: apply_update_def appended_same)

lemma remove_first_histories:
  assumes ok: "list_all history_ok old" and di: "distinct (map oid old)"
    and lt: "list_all (\<lambda>d. oid d < k) old"
  shows "list_all history_ok (remove_first aid old)"
    and "distinct (map oid (remove_first aid old))"
    and "list_all (\<lambda>d. oid d < k) (remove_first aid old)"
    and "list_all (extends_history old) (remove_first aid old)"
proof -
  from remove_first_shape [of aid old]
  have s: "set (remove_first aid old) \<subseteq> set old" and d: "distinct (map oid (remove_first aid old))"
    using di by auto
  from ok s show "list_all history_ok (remove_first aid old)" by (auto simp: list_all_iff)
  from d show "distinct (map oid (remove_first aid old))" .
  from lt s show "list_all (\<lambda>d. oid d < k) (remove_first aid old)" by (auto simp: list_all_iff)
  from s show "list_all (extends_history old) (remove_first aid old)" by (rule extends_sub [OF di])
qed

lemma editar_docs_quiet:
  assumes "faults w = []"
  shows "\<exists>u e. docs (snd (editar_documento w aid now new_location new_status))
           = update_first aid (apply_update u e) (docs w)"
  using assms
  by (auto simp: editar_documento_def edit_location_def edit_status_def find_one_quiet
      update_one_quiet Let_def split: option.split)

text \<open>
  An edit followed by an import of the row the asset came from: the asset \<open>1\<close> has two
  entries after the edit and one after the import; the entry of the status change is gone.
  A delete takes the document away with all its entries.
\<close>

theorem reimport_loses_history:
  "map (\<lambda>d. (asset_id (doc d), map type (movement_history (doc d))))
     (docs (run (Edit ''1'' ''2024-06-01 09:00:00'' None (Some ''Desativado'')) one_world))
     = [(''1'', [Aquisicao, Atualizacao_de_Status @ ''Em Uso para Desativado''])]
   \<and> map (\<lambda>d. (asset_id (doc d), map type (movement_history (doc d))))
       (docs (run (Import (Table [row1]) ''products.csv'' 5000)
          (run (Edit ''1'' ''2024-06-01 09:00:00'' None (Some ''Desativado'')) one_world)))
     = [(''1'', [Aquisicao])]
   \<and> docs (run (Delete ''1'')
        (run (Edit ''1'' ''2024-06-01 09:00:00'' None (Some ''Desativado'')) one_world)) = []"
  by (simp add: editar_documento_def edit_location_def edit_status_def find_one_def
      update_one_def apply_update_def server_call_def print_def one_world_def doc_of_row_def
      row1_def get_str_def truthy_def get_status_def get_location_def Let_def
      importar_csv_para_mongodb_def delete_many_def insert_many_def
      excluir_documento_def delete_one_def)

text \<open>
  Claim C8. Let the collection be such that every document has a non-empty
  \<open>movement_history\<close> whose first entry is the acquisition, and such that the identifiers
  given by the store are distinct and below the next one to be given. After any of the ten
  operations, with any arguments and whether the store fails or not, the collection is
  again such a collection; every document of it that was there before (the same store
  identifier) has a history of which the former history is a prefix, longer by at most one
  entry, and every document that was not there before has exactly one entry, the
  acquisition. An edit of an asset that exists, with a store that does not fail, changes
  one document only, and appends exactly one entry to its history.

  Every operation other than the import and the delete keeps every document, in its
  place, with the former history as a prefix of the new one: the six reading operations
  leave the collection as it is, the manual insertion only adds documents after those
  already there, and an edit leaves the number and the identifiers of the documents as
  they are. A delete removes at most one document, one with the given \<open>asset_id\<close>, with
  all its entries, and leaves the others as they are. An import leaves the collection as
  it is or leaves only documents that were not there before, each with the acquisition
  entry alone.
\<close>

theorem history_invariants:
  "(list_all history_ok (docs w) \<and> distinct (map oid (docs w))
      \<and> list_all (\<lambda>d. oid d < next_oid w) (docs w) \<longrightarrow>
        list_all history_ok (docs (run op w))
        \<and> distinct (map oid (docs (run op w)))
        \<and> list_all (\<lambda>d. oid d < next_oid (run op w)) (docs (run op w))
        \<and> list_all (extends_history (docs w)) (docs (run op w)))
   \<and> (faults w = [] \<and> find (\<lambda>x. asset_id (doc x) = aid) (docs w) = Some d \<longrightarrow>
        (\<exists>pre post d' e. docs w = pre @ d # post
           \<and> docs (run (Edit aid now new_location new_status) w) = pre @ d' # post
           \<and> oid d' = oid d
           \<and> movement_history (doc d') = movement_history (doc d) @ [e]))
   \<and> ((\<forall>src p n. op \<noteq> Import src p n) \<and> (\<forall>a. op \<noteq> Delete a) \<longrightarrow>
        length (docs w) \<le> length (docs (run op w))
        \<and> list_all2 appended (docs w) (take (length (docs w)) (docs (run op w))))
   \<and> ((\<forall>src p n. op \<noteq> Import src p n) \<and> (\<forall>a. op \<noteq> Delete a)
        \<and> (\<forall>k. op \<noteq> Insert k) \<and> (\<forall>a t nl ns. op \<noteq> Edit a t nl ns) \<longrightarrow>
        docs (run op w) = docs w)
   \<and> prefix (docs w) (docs (run (Insert k) w))
   \<and> list_all2 appended (docs w) (docs (run (Edit aid now new_location new_status) w))
   \<and> (docs (run (Delete aid) w) = docs w
        \<or> (\<exists>pre x post. docs w = pre @ x # post \<and> asset_id (doc x) = aid
              \<and> docs (run (Delete aid) w) = pre @ post))
   \<and> (docs (run (Import src p n) w) = docs w
        \<or> list_all (\<lambda>d'. fresh_asset (doc d') \<and> next_oid w \<le> oid d')
             (docs (run (Import src p n) w)))"
proof -
  let ?P = "\<lambda>new k'. list_all history_ok new \<and> distinct (map oid new)
              \<and> list_all (\<lambda>d. oid d < k') new \<and> list_all (extends_history (docs w)) new"
  have inv: "?P (docs (run op w)) (next_oid (run op w))"
    if assms: "list_all history_ok (docs w)" "distinct (map oid (docs w))"
      "list_all (\<lambda>d. oid d < next_oid w) (docs w)"
  proof -
    have A: "?P (base @ with_ids (next_oid w) ds) (next_oid w + length ds)"
      if "base = docs w \<or> base = []" and "list_all fresh_asset ds" for base ds
      using append_fresh [OF assms that] by simp
    have keep: "?P (docs w) (next_oid w)"
      using A [of "docs w" "[]"] by simp
    have B: "?P (update_first a (apply_update u e) (docs w)) (next_oid w)" for a u e
    proof -
      have "list_all (\<lambda>d. oid d < next_oid w) (update_first a (apply_update u e) (docs w))
            = list_all (\<lambda>n. n < next_oid w) (map oid (update_first a (apply_update u e) (docs w)))"
        by (simp add: list_all_iff)
      also have "\<dots> = list_all (\<lambda>d. oid d < next_oid w) (docs w)"
        unfolding map_oid_update_first by (simp add: list_all_iff)
      finally have "list_all (\<lambda>d. oid d < next_oid w) (update_first a (apply_update u e) (docs w))"
        using assms(3) by simp
      moreover have "distinct (map oid (update_first a (apply_update u e) (docs w)))"
        unfolding map_oid_update_first by (rule assms(2))
      ultimately show ?thesis using update_first_histories [OF assms(1,2), of a u e] by simp
    qed
    have C: "?P (remove_first a (docs w)) (next_oid w)" for a
      using remove_first_histories [OF assms, of a] by simp
    show ?thesis
    proof (cases op)
      case (Import src p n)
      from run_Import [of w src p n] obtain base ds where
        "base = docs w \<and> ds = [] \<or> base = []" "list_all fresh_asset ds"
        "docs (run (Import src p n) w) = base @ with_ids (next_oid w) ds"
        "next_oid (run (Import src p n) w) = next_oid w + length ds" by blast
      moreover from this(1) have "base = docs w \<or> base = []" by blast
      ultimately show ?thesis using A [of base ds] unfolding Import by simp
    next
      case (Insert n)
      from run_Insert [of n w] obtain ds where
        "list_all fresh_asset ds"
        "docs (run (Insert n) w) = docs w @ with_ids (next_oid w) ds"
        "next_oid (run (Insert n) w) = next_oid w + length ds" by blast
      with A [of "docs w" ds] show ?thesis unfolding Insert by simp
    next
      case (Edit a t nl ns)
      from run_Edit [of a t nl ns w] have n: "next_oid (run (Edit a t nl ns) w) = next_oid w"
        and "docs (run (Edit a t nl ns) w) = docs w
             \<or> (\<exists>u e. docs (run (Edit a t nl ns) w) = update_first a (apply_update u e) (docs w))"
        by simp_all
      from this(2) show ?thesis
      proof
        assume "docs (run (Edit a t nl ns) w) = docs w"
        with n keep show ?thesis unfolding Edit by simp
      next
        assume "\<exists>u e. docs (run (Edit a t nl ns) w) = update_first a (apply_update u e) (docs w)"
        then obtain u e where
          "docs (run (Edit a t nl ns) w) = update_first a (apply_update u e) (docs w)" by blast
        with n B [of a u e] show ?thesis unfolding Edit by simp
      qed
    next
      case (Delete a)
      from run_Delete [of a w] keep C [of a] show ?thesis unfolding Delete by auto
    next
      case FindAll
      from run_FindAll [of w] keep show ?thesis unfolding FindAll by simp
    next
      case (FindByLocation loc)
      from run_FindByLocation [of loc w] keep show ?thesis unfolding FindByLocation by simp
    next
      case (FindByStatusOrCategory st cat)
      from run_FindByStatusOrCategory [of st cat w] keep show ?thesis
        unfolding FindByStatusOrCategory by simp
    next
      case (FindMovementHistory a)
      from run_FindMovementHistory [of a w] keep show ?thesis unfolding FindMovementHistory by simp
    next
      case CountByLocation
      from run_CountByLocation [of w] keep show ?thesis unfolding CountByLocation by simp
    next
      case CountByCategoryAndStatus
      from run_CountByCategoryAndStatus [of w] keep show ?thesis
        unfolding CountByCategoryAndStatus by simp
    qed
  qed
  have one: "\<exists>pre post d' e. docs w = pre @ d # post
               \<and> docs (run (Edit aid now new_location new_status) w) = pre @ d' # post
               \<and> oid d' = oid d
               \<and> movement_history (doc d') = movement_history (doc d) @ [e]"
    if h: "faults w = [] \<and> find (\<lambda>x. asset_id (doc x) = aid) (docs w) = Some d"
  proof -
    from h have f: "faults w = []" and s: "find (\<lambda>x. asset_id (doc x) = aid) (docs w) = Some d"
      by simp_all
    from editar_docs_quiet [OF f, of aid now new_location new_status] obtain u e where
      r: "docs (run (Edit aid now new_location new_status) w)
            = update_first aid (apply_update u e) (docs w)" by auto
    from update_first_present [OF s, of "apply_update u e"] obtain pre post where
      "docs w = pre @ d # post"
      "update_first aid (apply_update u e) (docs w)
         = pre @ d\<lparr>doc := apply_update u e (doc d)\<rparr> # post" by blast
    with r have "docs w = pre @ d # post
        \<and> docs (run (Edit aid now new_location new_status) w)
            = pre @ d\<lparr>doc := apply_update u e (doc d)\<rparr> # post
        \<and> oid (d\<lparr>doc := apply_update u e (doc d)\<rparr>) = oid d
        \<and> movement_history (doc (d\<lparr>doc := apply_update u e (doc d)\<rparr>))
            = movement_history (doc d) @ [e]"
      by (simp add: apply_update_def)
    then show ?thesis by blast
  qed
  have reads: "docs (run op w) = docs w"
    if "(\<forall>src p n. op \<noteq> Import src p n) \<and> (\<forall>a. op \<noteq> Delete a)
        \<and> (\<forall>k. op \<noteq> Insert k) \<and> (\<forall>a t nl ns. op \<noteq> Edit a t nl ns)"
    using that run_FindAll [of w] run_FindByLocation [of _ w]
      run_FindByStatusOrCategory [of _ _ w] run_FindMovementHistory [of _ w]
      run_CountByLocation [of w] run_CountByCategoryAndStatus [of w]
    by (cases op) simp_all
  have ins: "prefix (docs w) (docs (run (Insert k) w))" for k
    using run_Insert [of k w] by auto
  have edi: "list_all2 appended (docs w) (docs (run (Edit a t nl ns) w))" for a t nl ns
    using run_Edit [of a t nl ns w] appended_same [of "docs w"]
      appended_update_first [of "docs w" a] by auto
  have kept: "length (docs w) \<le> length (docs (run op w))
        \<and> list_all2 appended (docs w) (take (length (docs w)) (docs (run op w)))"
    if k: "(\<forall>src p n. op \<noteq> Import src p n) \<and> (\<forall>a. op \<noteq> Delete a)"
  proof (cases "(\<exists>k. op = Insert k) \<or> (\<exists>a t nl ns. op = Edit a t nl ns)")
    case False
    with k have "docs (run op w) = docs w" by (intro reads) simp
    then show ?thesis by (simp add: appended_same)
  next
    case True
    then show ?thesis
    proof
      assume "\<exists>k. op = Insert k"
      then obtain k where o: "op = Insert k" by blast
      from ins [of k] obtain zs where "docs (run (Insert k) w) = docs w @ zs"
        by (auto simp: prefix_def)
      then show ?thesis unfolding o by (simp add: appended_same)
    next
      assume "\<exists>a t nl ns. op = Edit a t nl ns"
      then obtain a t nl ns where o: "op = Edit a t nl ns" by blast
      from edi [of a t nl ns] have "length (docs w) = length (docs (run (Edit a t nl ns) w))"
        by (rule list_all2_lengthD)
      with edi [of a t nl ns] show ?thesis unfolding o by simp
    qed
  qed
  have del: "docs (run (Delete aid) w) = docs w
        \<or> (\<exists>pre x post. docs w = pre @ x # post \<and> asset_id (doc x) = aid
              \<and> docs (run (Delete aid) w) = pre @ post)"
    using run_Delete [of aid w] remove_first_shape [of aid "docs w"] by auto
  have imp: "docs (run (Import src p n) w) = docs w
        \<or> list_all (\<lambda>d'. fresh_asset (doc d') \<and> next_oid w \<le> oid d')
             (docs (run (Import src p n) w))"
  proof -
    from run_Import [of w src p n] obtain base ds where
      b: "base = docs w \<and> ds = [] \<or> base = []" and fr: "list_all fresh_asset ds"
      and d: "docs (run (Import src p n) w) = base @ with_ids (next_oid w) ds" by blast
    from b show ?thesis
    proof
      assume "base = docs w \<and> ds = []"
      with d show ?thesis by simp
    next
      assume e: "base = []"
      have "fresh_asset (doc x) \<and> next_oid w \<le> oid x" if "x \<in> set (with_ids (next_oid w) ds)" for x
        using in_with_ids [OF that] fr by (simp add: list_all_iff)
      then have "list_all (\<lambda>d'. fresh_asset (doc d') \<and> next_oid w \<le> oid d')
                   (with_ids (next_oid w) ds)" unfolding list_all_iff by blast
      with d e show ?thesis by simp
    qed
  qed
  from inv one kept reads ins [of k] edi [of aid now new_location new_status] del imp
  show ?thesis by blast
qed

text \<open>
  The theorem at the collection of one document, for the edit of its status: the
  document is kept, with two entries afterwards, the first of them the acquisition.
\<close>

theorem history_invariants_witness:
  "list_all history_ok (docs one_world)
   \<and> distinct (map oid (docs one_world))
   \<and> list_all (\<lambda>d. oid d < next_oid one_world) (docs one_world)
   \<and> faults one_world = []
   \<and> find (\<lambda>x. asset_id (doc x) = ''1'') (docs one_world) = Some \<lparr>oid = 0, doc = doc_of_row row1\<rparr>
   \<and> list_all history_ok
       (docs (run (Edit ''1'' ''2024-06-01 09:00:00'' None (Some ''Desativado'')) one_world))
   \<and> list_all (extends_history (docs one_world))
       (docs (run (Edit ''1'' ''2024-06-01 09:00:00'' None (Some ''Desativado'')) one_world))
   \<and> list_all2 appended (docs one_world)
       (docs (run (Edit ''1'' ''2024-06-01 09:00:00'' None (Some ''Desativado'')) one_world))
   \<and> map (\<lambda>d. length (movement_history (doc d)))
       (docs (run (Edit ''1'' ''2024-06-01 09:00:00'' None (Some ''Desativado'')) one_world)) = [2]
   \<and> length (docs one_world)
       \<le> length (docs (run (Edit ''1'' ''2024-06-01 09:00:00'' None (Some ''Desativado'')) one_world))
   \<and> docs (run FindAll one_world) = docs one_world"
proof -
  let ?d = "\<lparr>oid = 0, doc = doc_of_row row1\<rparr>"
  let ?op = "Edit ''1'' ''2024-06-01 09:00:00'' None (Some ''Desativado'')"
  have d: "docs one_world = [?d]" by (simp add: one_world_def)
  have m: "length (movement_history (doc ?d)) = 1" by (simp add: doc_of_row_def)
  have h1: "list_all history_ok (docs one_world)" unfolding d by (simp add: doc_of_row_def)
  have h2: "distinct (map oid (docs one_world))" unfolding d by simp
  have h3: "list_all (\<lambda>d. oid d < next_oid one_world) (docs one_world)"
    by (simp add: one_world_def)
  have f: "faults one_world = []" by (simp add: one_world_def)
  have a: "find (\<lambda>x. asset_id (doc x) = ''1'') (docs one_world) = Some ?d"
    by (simp add: one_world_def doc_of_row_def row1_def get_str_def)
  note t = history_invariants [of one_world ?op "''1''" ?d "''2024-06-01 09:00:00''" None
      "Some ''Desativado''"]
  note r = history_invariants [of one_world FindAll]
  from t f a obtain pre post d' e where p: "docs one_world = pre @ ?d # post"
    and q: "docs (run ?op one_world) = pre @ d' # post"
    and r': "movement_history (doc d') = movement_history (doc ?d) @ [e]" by blast
  from p have "pre = [] \<and> post = []" unfolding d by (cases pre) simp_all
  with q r' m have l: "map (\<lambda>d. length (movement_history (doc d))) (docs (run ?op one_world)) = [2]"
    by simp
  from r have k: "docs (run FindAll one_world) = docs one_world" by blast
  from t h1 h2 h3 have i: "list_all history_ok (docs (run ?op one_world))"
    "list_all (extends_history (docs one_world)) (docs (run ?op one_world))"
    "list_all2 appended (docs one_world) (docs (run ?op one_world))" by blast+
  from t have j: "length (docs one_world) \<le> length (docs (run ?op one_world))" by blast
  from h1 h2 h3 f a i l j k show ?thesis by blast
qed

end
